theory Spec2Isabelle
  imports Complex_Main "HOL-Library.Sublist"
begin

section \<open>Table reconstruction from positioned text items (PDFProcessor)\<close>

text \<open>
  A text item of a page, as the document reader delivers it: the text \<open>str\<close>, the origin
  \<open>transform[4]\<close> (x) and \<open>transform[5]\<close> (y), and the optional \<open>width\<close> and \<open>height\<close>
  (read as \<open>item.width || 0\<close>). Coordinates are JavaScript numbers; they are modelled as
  exact rationals, and the one place where the source divides by a number that can be zero
  is written out with the IEEE outcome of that division.
\<close>

record text_item =
  str :: string
  xpos :: rat
  ypos :: rat
  width :: "rat option"
  height :: "rat option"

definition TABLE_DETECTION_THRESHOLD :: rat where
  "TABLE_DETECTION_THRESHOLD = 9 / 10"

definition MIN_TABLE_ROWS :: nat where
  "MIN_TABLE_ROWS = 3"

definition MIN_TABLE_COLS :: nat where
  "MIN_TABLE_COLS = 3"

text \<open>\<open>for (let i = 1; i < xPositions.length; i++) gaps.push(xPositions[i] - xPositions[i - 1])\<close>\<close>

fun gapsOf :: "rat list \<Rightarrow> rat list" where
  "gapsOf (a # b # xs) = (b - a) # gapsOf (b # xs)"
| "gapsOf xs = []"

text \<open>
  \<open>Math.abs(gap - avgGap) / avgGap < 0.5\<close>. The numerator is never negative. When
  \<open>avgGap\<close> is zero the quotient is \<open>NaN\<close> (0/0) or \<open>+Infinity\<close>, and the comparison is
  false; otherwise it is the comparison of the quotient, whose sign is that of \<open>avgGap\<close>.
\<close>

definition gapConsistent :: "rat \<Rightarrow> rat \<Rightarrow> bool" where
  "gapConsistent avgGap gap =
     (if avgGap = 0 then False else \<bar>gap - avgGap\<bar> / avgGap < 1 / 2)"

definition isTableRow :: "text_item list \<Rightarrow> bool" where
  "isTableRow row =
     (if length row < MIN_TABLE_COLS then False
      else
        let xPositions = map xpos row;
            gaps = gapsOf xPositions
        in if length gaps = 0 then False
           else
             let avgGap = foldl (+) 0 gaps / of_nat (length gaps);
                 consistentGaps = length (filter (gapConsistent avgGap) gaps)
             in of_nat consistentGaps / of_nat (length gaps) \<ge> TABLE_DETECTION_THRESHOLD)"

text \<open>The candidate object \<open>{ rows, startIndex, endIndex }\<close>.\<close>

record candidate =
  cand_rows :: "text_item list list"
  startIndex :: nat
  endIndex :: nat

text \<open>
  The inner loop of \<open>detectTableStructures\<close>:
  \<open>while (j < rows.length && isTableRow(rows[j])) { tableRows.push(rows[j]); j++; }\<close>
\<close>

function extendRun ::
  "text_item list list \<Rightarrow> text_item list list \<Rightarrow> nat \<Rightarrow> text_item list list \<times> nat" where
  "extendRun rows tableRows j =
     (if j < length rows \<and> isTableRow (rows ! j)
      then extendRun rows (tableRows @ [rows ! j]) (j + 1)
      else (tableRows, j))"
  by pat_completeness auto
termination
  by (relation "measure (\<lambda>(rows, tableRows, j). length rows - j)") auto

declare extendRun.simps [simp del]

lemma extendRun_index: "j \<le> snd (extendRun rows tableRows j)"
proof (induction rows tableRows j rule: extendRun.induct)
  case (1 rows tableRows j)
  show ?case
  proof (cases "j < length rows \<and> isTableRow (rows ! j)")
    case True
    with 1 have "j + 1 \<le> snd (extendRun rows (tableRows @ [rows ! j]) (j + 1))"
      by blast
    with True show ?thesis
      by (subst extendRun.simps) simp
  next
    case False
    then show ?thesis
      by (subst extendRun.simps) auto
  qed
qed

text \<open>
  The outer loop \<open>for (let i = 0; i < rows.length - 1; i++)\<close>, with the list of candidates
  found so far. After a run the source sets \<open>i = j - 1\<close> and the loop header increments.
\<close>

function detectLoop ::
  "text_item list list \<Rightarrow> nat \<Rightarrow> candidate list \<Rightarrow> candidate list" where
  "detectLoop rows i tableCandidates =
     (if int i < int (length rows) - 1 then
        (if isTableRow (rows ! i) \<and> isTableRow (rows ! (i + 1)) then
           (case extendRun rows [rows ! i] (i + 1) of
              (tableRows, j) \<Rightarrow>
                detectLoop rows ((j - 1) + 1)
                  (if length tableRows \<ge> MIN_TABLE_ROWS
                   then tableCandidates @
                     [\<lparr>cand_rows = tableRows, startIndex = i, endIndex = j - 1\<rparr>]
                   else tableCandidates))
         else detectLoop rows (i + 1) tableCandidates)
      else tableCandidates)"
  by pat_completeness auto
termination
proof (relation "measure (\<lambda>(rows, i, cs). length rows - i)", goal_cases)
  case 1
  show ?case by simp
next
  case (2 rows i cs tableRows j)
  have "i + 1 \<le> snd (extendRun rows [rows ! i] (i + 1))"
    by (rule extendRun_index)
  with 2 have "i + 1 \<le> j"
    by (metis snd_conv)
  with 2 show ?case by auto
next
  case (3 rows i cs)
  then show ?case by auto
qed

declare detectLoop.simps [simp del]

definition detectTableStructures :: "text_item list list \<Rightarrow> candidate list" where
  "detectTableStructures rows = detectLoop rows 0 []"


subsection \<open>The row test in the words of the specification\<close>







subsection \<open>Materialising a table\<close>

text \<open>
  The interfaces \<open>TableCell\<close> and \<open>Table\<close>. The field names carry a prefix because a record
  field is a constant of the theory. The bounding box of a table is computed with
  \<open>Math.min\<close> and \<open>Math.max\<close> over all member items; over no items these return
  \<open>Infinity\<close> and \<open>-Infinity\<close>, so the four box fields are extended numbers.
\<close>

record table_cell =
  cell_text :: string
  cell_x :: rat
  cell_y :: rat
  cell_width :: rat
  cell_height :: rat
  cell_row :: nat
  cell_col :: nat

datatype jsnum = Num rat | PosInfinity | NegInfinity | NaN

record table =
  tbl_id :: string
  tbl_pageNumber :: nat
  tbl_x :: jsnum
  tbl_y :: jsnum
  tbl_width :: jsnum
  tbl_height :: jsnum
  tbl_rows :: nat
  tbl_columns :: nat
  tbl_cells :: "table_cell list"
  tbl_rawText :: string

text \<open>\<open>value || 0\<close> on an optional number.\<close>

definition orZero :: "rat option \<Rightarrow> rat" where
  "orZero w = (case w of None \<Rightarrow> 0 | Some v \<Rightarrow> v)"

text \<open>\<open>Math.min(...xs)\<close> and \<open>Math.max(...xs)\<close>.\<close>

definition mathMin :: "rat list \<Rightarrow> jsnum" where
  "mathMin xs = (case xs of [] \<Rightarrow> PosInfinity | a # as \<Rightarrow> Num (fold min as a))"

definition mathMax :: "rat list \<Rightarrow> jsnum" where
  "mathMax xs = (case xs of [] \<Rightarrow> NegInfinity | a # as \<Rightarrow> Num (fold max as a))"

text \<open>IEEE subtraction on extended numbers, for \<open>maxX - minX\<close> and \<open>maxY - minY\<close>.\<close>

fun jsMinus :: "jsnum \<Rightarrow> jsnum \<Rightarrow> jsnum" where
  "jsMinus (Num a) (Num b) = Num (a - b)"
| "jsMinus (Num a) PosInfinity = NegInfinity"
| "jsMinus (Num a) NegInfinity = PosInfinity"
| "jsMinus PosInfinity (Num b) = PosInfinity"
| "jsMinus PosInfinity NegInfinity = PosInfinity"
| "jsMinus PosInfinity PosInfinity = NaN"
| "jsMinus NegInfinity (Num b) = NegInfinity"
| "jsMinus NegInfinity PosInfinity = NegInfinity"
| "jsMinus NegInfinity NegInfinity = NaN"
| "jsMinus NaN _ = NaN"
| "jsMinus _ NaN = NaN"

text \<open>\<open>Array.prototype.join\<close> on strings, and the decimal text of an index.\<close>

fun joinWith :: "string \<Rightarrow> string list \<Rightarrow> string" where
  "joinWith sep [] = []"
| "joinWith sep [s] = s"
| "joinWith sep (s # t # ss) = s @ sep @ joinWith sep (t # ss)"

function showNat :: "nat \<Rightarrow> string" where
  "showNat n =
     (if n < 10 then [char_of (48 + n)]
      else showNat (n div 10) @ [char_of (48 + n mod 10)])"
  by pat_completeness auto
termination
  by (relation "measure id") auto

declare showNat.simps [simp del]

text \<open>The cells of one row, \<open>row.forEach((item, colIndex) => cells.push({...}))\<close>.\<close>

definition cellOf :: "nat \<Rightarrow> nat \<Rightarrow> text_item \<Rightarrow> table_cell" where
  "cellOf rowIndex colIndex item =
     \<lparr>cell_text = str item, cell_x = xpos item, cell_y = ypos item,
      cell_width = orZero (width item), cell_height = orZero (height item),
      cell_row = rowIndex, cell_col = colIndex\<rparr>"

definition rowCells :: "nat \<Rightarrow> text_item list \<Rightarrow> table_cell list" where
  "rowCells rowIndex row = map (\<lambda>(colIndex, item). cellOf rowIndex colIndex item) (enumerate 0 row)"

definition createTableFromCandidate :: "candidate \<Rightarrow> nat \<Rightarrow> nat \<Rightarrow> table option" where
  "createTableFromCandidate cand pageNumber index =
     (let rows = cand_rows cand in
      if length rows = 0 then None
      else
        let allItems = concat rows;
            xPositions = map xpos allItems;
            yPositions = map ypos allItems;
            minX = mathMin xPositions;
            maxX = mathMax (map (\<lambda>item. xpos item + orZero (width item)) allItems);
            minY = mathMin yPositions;
            maxY = mathMax yPositions;
            cells = concat (map (\<lambda>(rowIndex, row). rowCells rowIndex row) (enumerate 0 rows));
            maxCols = fold (\<lambda>row m. max m (length row)) rows 0;
            rawText = joinWith [CHR 0x0A] (map (\<lambda>row. joinWith [CHR 0x09] (map str row)) rows)
        in Some \<lparr>tbl_id = ''table_'' @ showNat pageNumber @ ''_'' @ showNat index,
                 tbl_pageNumber = pageNumber,
                 tbl_x = minX, tbl_y = minY,
                 tbl_width = jsMinus maxX minX, tbl_height = jsMinus maxY minY,
                 tbl_rows = length rows, tbl_columns = maxCols,
                 tbl_cells = cells, tbl_rawText = rawText\<rparr>)"

text \<open>The address of a cell, and the cells of a list of rows numbered from \<open>n\<close>.\<close>

definition cellAddress :: "table_cell \<Rightarrow> nat \<times> nat" where
  "cellAddress c = (cell_row c, cell_col c)"

definition cellsFrom :: "nat \<Rightarrow> text_item list list \<Rightarrow> table_cell list" where
  "cellsFrom n rows = concat (map (\<lambda>(rowIndex, row). rowCells rowIndex row) (enumerate n rows))"

subsection \<open>Grouping items into rows and extracting the tables of a page\<close>

text \<open>
  White space as \<open>String.prototype.trim\<close> and the regular expression class \<open>\s\<close> see it,
  on the code units below 256: tab, line feed, vertical tab, form feed, carriage return,
  space and the no-break space.
\<close>

definition isWhiteSpace :: "char \<Rightarrow> bool" where
  "isWhiteSpace c = (of_char c \<in> {9, 10, 11, 12, 13, 32, 160 :: nat})"

definition trim :: "string \<Rightarrow> string" where
  "trim s = rev (dropWhile isWhiteSpace (rev (dropWhile isWhiteSpace s)))"

text \<open>
  One step of \<open>textItems.forEach\<close> in \<open>groupTextItemsIntoRows\<close>: the item joins the first
  row whose first item lies within \<open>yTolerance\<close> of it, or opens a new row at the end.
\<close>

definition yTolerance :: rat where
  "yTolerance = 3"

fun placeItem :: "text_item \<Rightarrow> text_item list list \<Rightarrow> text_item list list" where
  "placeItem item [] = [[item]]"
| "placeItem item (row # rest) =
     (if length row > 0 \<and> \<bar>ypos item - ypos (hd row)\<bar> \<le> yTolerance
      then (row @ [item]) # rest
      else row # placeItem item rest)"

text \<open>
  The two sorts are stable (ECMAScript 2019): rows by descending y of their first item,
  the items of each row by ascending x.
\<close>

definition groupTextItemsIntoRows :: "text_item list \<Rightarrow> text_item list list" where
  "groupTextItemsIntoRows textItems =
     (let rows = foldl (\<lambda>rows item. placeItem item rows) [] textItems;
          sortedRows = sort_key (\<lambda>row. - ypos (hd row)) rows
      in map (sort_key xpos) sortedRows)"

text \<open>
  \<open>tableCandidates.forEach((candidate, index) => ...)\<close>: a table is pushed when it is not
  null and meets both size thresholds.
\<close>

definition tablesOfCandidates :: "candidate list \<Rightarrow> nat \<Rightarrow> table list" where
  "tablesOfCandidates tableCandidates pageNumber =
     concat (map (\<lambda>(index, cand).
        (case createTableFromCandidate cand pageNumber index of
           None \<Rightarrow> []
         | Some t \<Rightarrow>
             if tbl_rows t \<ge> MIN_TABLE_ROWS \<and> tbl_columns t \<ge> MIN_TABLE_COLS then [t] else []))
       (enumerate 0 tableCandidates))"

definition extractTablesFromPage :: "text_item list \<Rightarrow> nat \<Rightarrow> table list" where
  "extractTablesFromPage items pageNumber =
     (let textItems = filter (\<lambda>item. str item \<noteq> [] \<and> length (trim (str item)) > 0) items in
      if length textItems = 0 then []
      else tablesOfCandidates (detectTableStructures (groupTextItemsIntoRows textItems)) pageNumber)"

subsection \<open>Runs of rows, for stating what the detector finds\<close>

text \<open>
  The rows with indices \<open>s..e\<close> form a maximal run of qualifying rows: all of them
  qualify, the row before (if any) and the row after (if any) do not.
\<close>

definition maximalRun :: "text_item list list \<Rightarrow> nat \<Rightarrow> nat \<Rightarrow> bool" where
  "maximalRun rows s e =
     (s \<le> e \<and> e < length rows \<and>
      list_all isTableRow (take (e + 1 - s) (drop s rows)) \<and>
      (s = 0 \<or> \<not> isTableRow (rows ! (s - 1))) \<and>
      (e + 1 = length rows \<or> \<not> isTableRow (rows ! (e + 1))))"

text \<open>A candidate is the run \<open>startIndex..endIndex\<close> with exactly the rows of that run.\<close>

definition candidateOfRun :: "text_item list list \<Rightarrow> candidate \<Rightarrow> bool" where
  "candidateOfRun rows c =
     (maximalRun rows (startIndex c) (endIndex c) \<and>
      cand_rows c = take (endIndex c + 1 - startIndex c) (drop (startIndex c) rows) \<and>
      length (cand_rows c) \<ge> 3)"

text \<open>Candidates are listed top to bottom and do not overlap.\<close>

definition disjointInOrder :: "candidate list \<Rightarrow> bool" where
  "disjointInOrder cs = sorted_wrt (\<lambda>c d. endIndex c < startIndex d) cs"

text \<open>
  For the proofs: the qualifying rows from index \<open>i\<close> on, the candidate they form, the
  condition under which the scan stands at index \<open>i\<close> (no run is entered in its middle),
  and the scan from \<open>i\<close> with no candidate found yet.
\<close>

definition runFrom :: "text_item list list \<Rightarrow> nat \<Rightarrow> text_item list list" where
  "runFrom rows i = takeWhile isTableRow (drop i rows)"

definition scanStart :: "text_item list list \<Rightarrow> nat \<Rightarrow> bool" where
  "scanStart rows i =
     (i = 0 \<or> length rows \<le> i \<or> \<not> isTableRow (rows ! (i - 1)) \<or> \<not> isTableRow (rows ! i))"

definition runCandidate :: "text_item list list \<Rightarrow> nat \<Rightarrow> candidate" where
  "runCandidate rows i =
     \<lparr>cand_rows = runFrom rows i, startIndex = i, endIndex = i + length (runFrom rows i) - 1\<rparr>"

definition detectFrom :: "text_item list list \<Rightarrow> nat \<Rightarrow> candidate list" where
  "detectFrom rows i = detectLoop rows i []"

text \<open>Four rows of four evenly spaced columns, followed by a two-item line.\<close>

definition gridRow :: "rat \<Rightarrow> text_item list" where
  "gridRow y = map (\<lambda>x. \<lparr>str = ''c'', xpos = x, ypos = y, width = Some 5, height = Some 10\<rparr>)
     [0, 50, 100, 150]"

definition samplePage :: "text_item list list" where
  "samplePage = [gridRow 400, gridRow 380, gridRow 360, gridRow 340,
     [\<lparr>str = ''Total'', xpos = 0, ypos = 300, width = None, height = None\<rparr>,
      \<lparr>str = ''12'', xpos = 7, ypos = 300, width = None, height = None\<rparr>]]"

text \<open>A candidate of three grid rows.\<close>

definition sampleCandidate :: candidate where
  "sampleCandidate = \<lparr>cand_rows = [gridRow 400, gridRow 380, gridRow 360],
     startIndex = 0, endIndex = 2\<rparr>"


section \<open>Structured records recovered from model responses (OpenRouterAPI)\<close>

subsection \<open>JavaScript values as they come out of \<open>JSON.parse\<close>\<close>

text \<open>
  The analysis code is written over \<open>any\<close>: every record it handles is a value parsed from
  JSON text. Such a value is a tree; numbers are modelled as exact rationals and strings as
  lists of code units. The members of an object are kept in order, with distinct keys.
  \<open>undefined\<close> (the result of reading a missing property) is \<open>None\<close> of \<open>json option\<close>.
\<close>

datatype json =
    JNull
  | JBool bool
  | JNum rat
  | JStr string
  | JArr "json list"
  | JObj "(string \<times> json) list"

text \<open>
  What the code takes from the JavaScript platform: \<open>JSON.parse\<close> (\<open>None\<close> when it throws a
  \<open>SyntaxError\<close>), \<open>JSON.stringify(v, null, 2)\<close> on a tree, and the text of a number. They
  are parameters of the model; the theorems hold for every platform.
\<close>

record platform =
  JSON_parse :: "string \<Rightarrow> json option"
  JSON_stringify :: "json \<Rightarrow> string"
  Number_toString :: "rat \<Rightarrow> string"

datatype error =
    TypeError
  | ResponseNotParsed
  | NoValidResults
  | NoResponse
  | TransportError

text \<open>Truthiness, as \<open>if (v)\<close>, \<open>!v\<close>, \<open>a && b\<close> and \<open>a || b\<close> use it.\<close>

fun truthy :: "json \<Rightarrow> bool" where
  "truthy JNull = False"
| "truthy (JBool b) = b"
| "truthy (JNum n) = (n \<noteq> 0)"
| "truthy (JStr s) = (s \<noteq> [])"
| "truthy (JArr xs) = True"
| "truthy (JObj kvs) = True"

definition truthyOpt :: "json option \<Rightarrow> bool" where
  "truthyOpt v = (case v of None \<Rightarrow> False | Some w \<Rightarrow> truthy w)"

text \<open>
  Reading a named property \<open>v.name\<close> of a value that is not \<open>null\<close>. None of the names the
  code reads exists on a prototype, so only an object that has the member yields a value.
  Reading a property of \<open>null\<close> throws; the callers below test for \<open>null\<close> first.
\<close>

fun field :: "json \<Rightarrow> string \<Rightarrow> json option" where
  "field (JObj kvs) name = map_of kvs name"
| "field _ name = None"

text \<open>\<open>a || b\<close> where \<open>a\<close> is a property that may be missing.\<close>

definition orElse :: "json option \<Rightarrow> json \<Rightarrow> json" where
  "orElse a b = (case a of None \<Rightarrow> b | Some v \<Rightarrow> if truthy v then v else b)"

text \<open>
  \<open>ToString\<close>, as a template literal and \<open>Array.prototype.join\<close> apply it. An object
  parsed from JSON has no callable \<open>toString\<close>: with an own member of that name the
  conversion throws a \<open>TypeError\<close>, without one the inherited method gives
  \<open>[object Object]\<close>. An array is joined with commas, \<open>null\<close> elements giving the empty
  text.
\<close>

fun ToString :: "platform \<Rightarrow> json \<Rightarrow> error + string"
  and ToStringElems :: "platform \<Rightarrow> json list \<Rightarrow> error + string list" where
  "ToString P JNull = Inr ''null''"
| "ToString P (JBool b) = Inr (if b then ''true'' else ''false'')"
| "ToString P (JNum n) = Inr (Number_toString P n)"
| "ToString P (JStr s) = Inr s"
| "ToString P (JArr xs) =
     (case ToStringElems P xs of Inl e \<Rightarrow> Inl e | Inr ss \<Rightarrow> Inr (joinWith '','' ss))"
| "ToString P (JObj kvs) =
     (if ''toString'' \<in> set (map fst kvs) then Inl TypeError else Inr ''[object Object]'')"
| "ToStringElems P [] = Inr []"
| "ToStringElems P (x # xs) =
     (case (if x = JNull then Inr [] else ToString P x) of
        Inl e \<Rightarrow> Inl e
      | Inr s \<Rightarrow> (case ToStringElems P xs of Inl e \<Rightarrow> Inl e | Inr ss \<Rightarrow> Inr (s # ss)))"

subsection \<open>transformSOC1Result\<close>

text \<open>One entry of \<open>findings\<close>, and the object that \<open>transformSOC1Result\<close> returns.\<close>

record finding =
  f_id :: string
  f_attributeName :: json
  f_description :: json
  f_value :: json
  f_pageNumbers :: json
  f_confidence :: json
  f_category :: string
  f_dataType :: string
  f_critical :: bool

record analysis =
  findings :: "finding list"
  categories :: "string list"
  rawResult :: json

text \<open>
  The three \<open>forEach\<close> callbacks. Each reads properties of the array element; on a \<open>null\<close>
  element the first read throws a \<open>TypeError\<close>.
\<close>

definition controlFinding :: "platform \<Rightarrow> nat \<Rightarrow> json \<Rightarrow> error + finding" where
  "controlFinding P index control =
     (if control = JNull then Inl TypeError
      else Inr
        \<lparr>f_id = ''control-failure-'' @ showNat index,
         f_attributeName =
           orElse (field control ''id'') (JStr (''Control Failure '' @ showNat (index + 1))),
         f_description =
           orElse (field control ''description'')
             (JStr ''Control failure description not provided''),
         f_value = orElse (field control ''effectiveness'') (JStr ''Not specified''),
         f_pageNumbers = orElse (field control ''pageNumbers'') (JArr [JNum 1]),
         f_confidence = orElse (field control ''confidenceScore'') (JNum (8 / 10)),
         f_category = ''Control Failures'',
         f_dataType = ''string'',
         f_critical = (field control ''effectiveness'' = Some (JStr ''ineffective''))\<rparr>)"

definition exclusionFinding :: "platform \<Rightarrow> nat \<Rightarrow> json \<Rightarrow> error + finding" where
  "exclusionFinding P index exclusion =
     (if exclusion = JNull then Inl TypeError
      else Inr
        \<lparr>f_id = ''exclusion-'' @ showNat index,
         f_attributeName =
           orElse (field exclusion ''id'') (JStr (''Exclusion '' @ showNat (index + 1))),
         f_description =
           orElse (field exclusion ''description'') (JStr ''Exclusion description not provided''),
         f_value = orElse (field exclusion ''reason'') (JStr ''No reason provided''),
         f_pageNumbers = orElse (field exclusion ''pageNumbers'') (JArr [JNum 1]),
         f_confidence = orElse (field exclusion ''confidenceScore'') (JNum (9 / 10)),
         f_category = ''Exclusions'',
         f_dataType = ''string'',
         f_critical = False\<rparr>)"

definition carveOutFinding :: "platform \<Rightarrow> nat \<Rightarrow> json \<Rightarrow> error + finding" where
  "carveOutFinding P index carveOut =
     (if carveOut = JNull then Inl TypeError
      else
        case ToString P (orElse (field carveOut ''provider'') (JStr ''Unknown Provider'')) of
          Inl e \<Rightarrow> Inl e
        | Inr provider \<Rightarrow>
            (case ToString P (orElse (field carveOut ''reason'') (JStr ''No reason provided'')) of
               Inl e \<Rightarrow> Inl e
             | Inr reason \<Rightarrow> Inr
                \<lparr>f_id = ''carveout-'' @ showNat index,
                 f_attributeName =
                   orElse (field carveOut ''id'') (JStr (''Carve-Out '' @ showNat (index + 1))),
                 f_description =
                   orElse (field carveOut ''description'')
                     (JStr ''Carve-out description not provided''),
                 f_value = JStr (provider @ '' - '' @ reason),
                 f_pageNumbers = orElse (field carveOut ''pageNumbers'') (JArr [JNum 1]),
                 f_confidence = orElse (field carveOut ''confidenceScore'') (JNum (9 / 10)),
                 f_category = ''Carve-Outs'',
                 f_dataType = ''string'',
                 f_critical = False\<rparr>))"

text \<open>\<open>array.forEach((element, index) => findings.push(...))\<close>, stopping at the first throw.\<close>

fun forEachFinding ::
  "(nat \<Rightarrow> json \<Rightarrow> error + finding) \<Rightarrow> nat \<Rightarrow> json list \<Rightarrow> error + finding list" where
  "forEachFinding f index [] = Inr []"
| "forEachFinding f index (x # xs) =
     (case f index x of
        Inl e \<Rightarrow> Inl e
      | Inr y \<Rightarrow> (case forEachFinding f (index + 1) xs of Inl e \<Rightarrow> Inl e | Inr ys \<Rightarrow> Inr (y # ys)))"

text \<open>\<open>if (aiResult.name && Array.isArray(aiResult.name)) aiResult.name.forEach(...)\<close>\<close>

definition categoryFindings ::
  "(nat \<Rightarrow> json \<Rightarrow> error + finding) \<Rightarrow> json \<Rightarrow> string \<Rightarrow> error + finding list" where
  "categoryFindings f aiResult name =
     (case field aiResult name of
        Some (JArr xs) \<Rightarrow> forEachFinding f 0 xs
      | _ \<Rightarrow> Inr [])"

definition summaryFinding :: "json \<Rightarrow> finding" where
  "summaryFinding summary =
     \<lparr>f_id = ''executive-summary'',
      f_attributeName = JStr ''Executive Summary'',
      f_description = JStr ''SOC1 Report Executive Summary'',
      f_value = JObj
        [(''reportPeriod'', orElse (field summary ''reportPeriod'') (JStr ''Not specified'')),
         (''serviceOrganization'',
            orElse (field summary ''serviceOrganization'') (JStr ''Not specified'')),
         (''auditor'', orElse (field summary ''auditor'') (JStr ''Not specified'')),
         (''opinion'', orElse (field summary ''opinion'') (JStr ''Not specified''))],
      f_pageNumbers = JArr [JNum 1],
      f_confidence = JNum 1,
      f_category = ''Executive Summary'',
      f_dataType = ''object'',
      f_critical = False\<rparr>"

text \<open>
  \<open>transformSOC1Result\<close> is only called on a truthy value, so \<open>aiResult\<close> is not \<open>null\<close>.
\<close>

definition transformSOC1Result :: "platform \<Rightarrow> json \<Rightarrow> error + analysis" where
  "transformSOC1Result P aiResult =
     (case categoryFindings (controlFinding P) aiResult ''controlFailures'' of
        Inl e \<Rightarrow> Inl e
      | Inr controls \<Rightarrow>
     (case categoryFindings (exclusionFinding P) aiResult ''exclusions'' of
        Inl e \<Rightarrow> Inl e
      | Inr exclusions \<Rightarrow>
     (case categoryFindings (carveOutFinding P) aiResult ''carveOuts'' of
        Inl e \<Rightarrow> Inl e
      | Inr carveOuts \<Rightarrow>
          Inr \<lparr>findings = controls @ exclusions @ carveOuts @
                  (case field aiResult ''executiveSummary'' of
                     None \<Rightarrow> []
                   | Some summary \<Rightarrow> if truthy summary then [summaryFinding summary] else []),
               categories = [''Control Failures'', ''Exclusions'', ''Carve-Outs'',
                  ''Executive Summary''],
               rawResult = aiResult\<rparr>)))"

subsection \<open>Merging the results of the chunks\<close>

text \<open>
  \<open>Set.prototype.has\<close> compares with SameValueZero: primitives by value, objects and
  arrays by reference. The identifiers of two findings of parsed records are never the same
  reference, so an object or array identifier equals no other.
\<close>

fun sameValueZero :: "json option \<Rightarrow> json option \<Rightarrow> bool" where
  "sameValueZero None None = True"
| "sameValueZero (Some (JArr xs)) _ = False"
| "sameValueZero (Some (JObj kvs)) _ = False"
| "sameValueZero (Some a) (Some b) = (a = b)"
| "sameValueZero _ _ = False"

text \<open>
  \<open>removeDuplicates(items, idField)\<close>: the filter callback with the set \<open>seen\<close>, kept as the
  list of identifiers added so far. \<open>item[idField]\<close> throws on a \<open>null\<close> item.
\<close>

fun removeDuplicatesFrom ::
  "json option list \<Rightarrow> json list \<Rightarrow> string \<Rightarrow> error + json list" where
  "removeDuplicatesFrom seen [] idField = Inr []"
| "removeDuplicatesFrom seen (item # items) idField =
     (if item = JNull then Inl TypeError
      else
        let id = field item idField in
        if \<exists>s \<in> set seen. sameValueZero s id
        then removeDuplicatesFrom seen items idField
        else (case removeDuplicatesFrom (seen @ [id]) items idField of
                Inl e \<Rightarrow> Inl e
              | Inr kept \<Rightarrow> Inr (item # kept)))"

definition removeDuplicates :: "json list \<Rightarrow> string \<Rightarrow> error + json list" where
  "removeDuplicates items idField = removeDuplicatesFrom [] items idField"

text \<open>
  The accumulator \<open>combined\<close> of \<open>combineChunkResults\<close> and one turn of its loop over the
  chunk results.
\<close>

record combined =
  c_executiveSummary :: json
  c_controlFailures :: "json list"
  c_exclusions :: "json list"
  c_carveOuts :: "json list"

definition arrayField :: "json \<Rightarrow> string \<Rightarrow> json list" where
  "arrayField raw name = (case field raw name of Some (JArr xs) \<Rightarrow> xs | _ \<Rightarrow> [])"

definition combineStep :: "combined \<Rightarrow> analysis \<Rightarrow> combined" where
  "combineStep acc result =
     (if \<not> truthy (rawResult result) then acc
      else
        let raw = rawResult result in
        \<lparr>c_executiveSummary =
           (if truthyOpt (field raw ''executiveSummary'') \<and> \<not> truthy (c_executiveSummary acc)
            then the (field raw ''executiveSummary'') else c_executiveSummary acc),
         c_controlFailures = c_controlFailures acc @ arrayField raw ''controlFailures'',
         c_exclusions = c_exclusions acc @ arrayField raw ''exclusions'',
         c_carveOuts = c_carveOuts acc @ arrayField raw ''carveOuts''\<rparr>)"

definition combineChunkResults :: "platform \<Rightarrow> analysis list \<Rightarrow> error + analysis" where
  "combineChunkResults P chunkResults =
     (if length chunkResults = 0 then Inl NoValidResults
      else
        let acc = foldl combineStep
              \<lparr>c_executiveSummary = JNull, c_controlFailures = [], c_exclusions = [],
               c_carveOuts = []\<rparr> chunkResults
        in
        case removeDuplicates (c_controlFailures acc) ''id'' of
          Inl e \<Rightarrow> Inl e
        | Inr uniqueControlFailures \<Rightarrow>
        (case removeDuplicates (c_exclusions acc) ''id'' of
          Inl e \<Rightarrow> Inl e
        | Inr uniqueExclusions \<Rightarrow>
        (case removeDuplicates (c_carveOuts acc) ''id'' of
          Inl e \<Rightarrow> Inl e
        | Inr uniqueCarveOuts \<Rightarrow>
            transformSOC1Result P
              (JObj [(''executiveSummary'', c_executiveSummary acc),
                     (''controlFailures'', JArr uniqueControlFailures),
                     (''exclusions'', JArr uniqueExclusions),
                     (''carveOuts'', JArr uniqueCarveOuts)]))))"

subsection \<open>A reference platform, for running examples\<close>

text \<open>
  The theorems quantify over the platform. To evaluate the model on concrete inputs, the
  three platform functions are given here as executable definitions: a parser for the JSON
  grammar of ECMA-404, the indented serialisation of \<open>JSON.stringify(v, null, 2)\<close>, and the
  decimal text of a number. Strings hold code units below 256, so the parser rejects a
  four-digit escape above 00ff; the number text is the exact decimal expansion (cut after 20
  fraction digits), which is what JavaScript prints for numbers of up to 15 significant
  digits of ordinary magnitude.
\<close>

definition isJsonSpace :: "char \<Rightarrow> bool" where
  "isJsonSpace c = (of_char c \<in> {32, 9, 10, 13 :: nat})"

definition skipWs :: "string \<Rightarrow> string" where
  "skipWs s = dropWhile isJsonSpace s"

definition isDigit :: "char \<Rightarrow> bool" where
  "isDigit c = (48 \<le> (of_char c :: nat) \<and> (of_char c :: nat) \<le> 57)"

definition digitsValue :: "string \<Rightarrow> nat" where
  "digitsValue ds = foldl (\<lambda>a c. 10 * a + (of_char c - 48)) 0 ds"

definition hexDigit :: "char \<Rightarrow> nat option" where
  "hexDigit c =
     (let n = (of_char c :: nat) in
      if 48 \<le> n \<and> n \<le> 57 then Some (n - 48)
      else if 97 \<le> n \<and> n \<le> 102 then Some (n - 87)
      else if 65 \<le> n \<and> n \<le> 70 then Some (n - 55)
      else None)"

text \<open>The characters of a string literal after its opening quote, up to the closing one.\<close>

fun parseChars :: "string \<Rightarrow> string \<Rightarrow> (string \<times> string) option" where
  "parseChars acc [] = None"
| "parseChars acc (c # cs) =
     (if c = CHR 0x22 then Some (rev acc, cs)
      else if c = CHR 0x5C then
        (case cs of
           [] \<Rightarrow> None
         | e # rest \<Rightarrow>
             if e = CHR 0x22 \<or> e = CHR 0x5C \<or> e = CHR ''/'' then parseChars (e # acc) rest
             else if e = CHR ''b'' then parseChars (CHR 0x08 # acc) rest
             else if e = CHR ''f'' then parseChars (CHR 0x0C # acc) rest
             else if e = CHR ''n'' then parseChars (CHR 0x0A # acc) rest
             else if e = CHR ''r'' then parseChars (CHR 0x0D # acc) rest
             else if e = CHR ''t'' then parseChars (CHR 0x09 # acc) rest
             else if e = CHR ''u'' then
               (case rest of
                  a # b # c # d # rest' \<Rightarrow>
                    (case (hexDigit a, hexDigit b, hexDigit c, hexDigit d) of
                       (Some 0, Some 0, Some h, Some l) \<Rightarrow>
                         parseChars (char_of (16 * h + l) # acc) rest'
                     | _ \<Rightarrow> None)
                | _ \<Rightarrow> None)
             else None)
      else if (of_char c :: nat) < 32 then None
      else parseChars (c # acc) cs)"

text \<open>A number: \<open>-? (0 | [1-9][0-9]*) (. [0-9]+)? ([eE] [+-]? [0-9]+)?\<close>.\<close>

definition parseNumber :: "string \<Rightarrow> (rat \<times> string) option" where
  "parseNumber s =
     (let (neg, s1) = (case s of c # r \<Rightarrow> if c = CHR ''-'' then (True, r) else (False, s)
                       | [] \<Rightarrow> (False, s));
          ds = takeWhile isDigit s1;
          s2 = dropWhile isDigit s1
      in if ds = [] \<or> (hd ds = CHR ''0'' \<and> length ds > 1) then None
         else
           let (fs, s3, fracOk) =
                 (case s2 of
                    c # r \<Rightarrow>
                      if c = CHR ''.''
                      then (takeWhile isDigit r, dropWhile isDigit r, takeWhile isDigit r \<noteq> [])
                      else ([], s2, True)
                  | [] \<Rightarrow> ([], s2, True));
               (eneg, es, s4, expOk) =
                 (case s3 of
                    c # r \<Rightarrow>
                      if c = CHR ''e'' \<or> c = CHR ''E'' then
                        (let (eneg, r1) =
                               (case r of
                                  g # r' \<Rightarrow>
                                    if g = CHR ''-'' then (True, r')
                                    else if g = CHR ''+'' then (False, r')
                                    else (False, r)
                                | [] \<Rightarrow> (False, r))
                         in (eneg, takeWhile isDigit r1, dropWhile isDigit r1,
                             takeWhile isDigit r1 \<noteq> []))
                      else (False, [], s3, True)
                  | [] \<Rightarrow> (False, [], s3, True));
               mantissa = of_nat (digitsValue (ds @ fs)) / 10 ^ length fs;
               scaled = (if eneg then mantissa / 10 ^ digitsValue es
                         else mantissa * 10 ^ digitsValue es)
           in if fracOk \<and> expOk then Some (if neg then - scaled else scaled, s4) else None)"

text \<open>A member set on an object: a repeated key keeps its place and takes the new value.\<close>

fun setMember :: "string \<Rightarrow> json \<Rightarrow> (string \<times> json) list \<Rightarrow> (string \<times> json) list" where
  "setMember k v [] = [(k, v)]"
| "setMember k v ((k', v') # kvs) =
     (if k = k' then (k, v) # kvs else (k', v') # setMember k v kvs)"

text \<open>
  The enumeration order of an object: the members whose key is an array index come first,
  in ascending order, the others follow in the order of the text.
\<close>

definition isIndexKey :: "string \<Rightarrow> bool" where
  "isIndexKey k =
     (k \<noteq> [] \<and> list_all isDigit k \<and> (k = ''0'' \<or> hd k \<noteq> CHR ''0'') \<and>
      digitsValue k < 4294967295)"

definition enumerationOrder :: "(string \<times> json) list \<Rightarrow> (string \<times> json) list" where
  "enumerationOrder kvs =
     sort_key (\<lambda>(k, v). digitsValue k) (filter (\<lambda>(k, v). isIndexKey k) kvs)
       @ filter (\<lambda>(k, v). \<not> isIndexKey k) kvs"

lemma dropWhile_Cons_shorter: "dropWhile Q s = c # r \<Longrightarrow> length r < length s"
  using length_dropWhile_le [of Q s] by simp

text \<open>
  Values, the elements of an array after its opening bracket, and the members of an object
  after its opening brace, each with the rest of the input. The tests that the rest got
  shorter always succeed; they make the recursion well-founded.
\<close>

function parseValue :: "string \<Rightarrow> (json \<times> string) option"
  and parseElements :: "json list \<Rightarrow> string \<Rightarrow> (json \<times> string) option"
  and parseMembers :: "(string \<times> json) list \<Rightarrow> string \<Rightarrow> (json \<times> string) option" where
  "parseValue s =
     (case skipWs s of
        [] \<Rightarrow> None
      | c # r \<Rightarrow>
          if c = CHR ''['' then
            (case skipWs r of
               [] \<Rightarrow> None
             | d # r' \<Rightarrow> if d = CHR '']'' then Some (JArr [], r') else parseElements [] r)
          else if c = CHR ''{'' then
            (case skipWs r of
               [] \<Rightarrow> None
             | d # r' \<Rightarrow> if d = CHR ''}'' then Some (JObj [], r') else parseMembers [] r)
          else if c = CHR 0x22 then
            (case parseChars [] r of None \<Rightarrow> None | Some (txt, r') \<Rightarrow> Some (JStr txt, r'))
          else if take 4 (c # r) = ''true'' then Some (JBool True, drop 4 (c # r))
          else if take 5 (c # r) = ''false'' then Some (JBool False, drop 5 (c # r))
          else if take 4 (c # r) = ''null'' then Some (JNull, drop 4 (c # r))
          else (case parseNumber (c # r) of
                  None \<Rightarrow> None
                | Some (n, r') \<Rightarrow> Some (JNum n, r')))"
| "parseElements acc s =
     (case parseValue s of
        None \<Rightarrow> None
      | Some (v, r) \<Rightarrow>
          if length r < length s then
            (case skipWs r of
               [] \<Rightarrow> None
             | c # r' \<Rightarrow>
                 if c = CHR '','' then parseElements (acc @ [v]) r'
                 else if c = CHR '']'' then Some (JArr (acc @ [v]), r')
                 else None)
          else None)"
| "parseMembers acc s =
     (case skipWs s of
        [] \<Rightarrow> None
      | q # r0 \<Rightarrow>
          if q = CHR 0x22 then
            (case parseChars [] r0 of
               None \<Rightarrow> None
             | Some (k, r1) \<Rightarrow>
                 (case skipWs r1 of
                    [] \<Rightarrow> None
                  | c # r2 \<Rightarrow>
                      if c = CHR '':'' \<and> length r2 < length s then
                        (case parseValue r2 of
                           None \<Rightarrow> None
                         | Some (v, r3) \<Rightarrow>
                             if length r3 < length r2 then
                               (case skipWs r3 of
                                  [] \<Rightarrow> None
                                | d # r4 \<Rightarrow>
                                    if d = CHR '','' then parseMembers (setMember k v acc) r4
                                    else if d = CHR ''}''
                                    then Some (JObj (enumerationOrder (setMember k v acc)), r4)
                                    else None)
                             else None)
                      else None))
          else None)"
  by pat_completeness auto
termination
proof (relation "measure (\<lambda>x. case x of
    Inl s \<Rightarrow> 2 * length s
  | Inr (Inl (acc, s)) \<Rightarrow> 2 * length s + 1
  | Inr (Inr (acc, s)) \<Rightarrow> 2 * length s + 1)", goal_cases)
  case 1
  show ?case by simp
next
  case (2 s c r d r')
  then show ?case by (auto simp: skipWs_def dest: dropWhile_Cons_shorter)
next
  case (3 s c r d r')
  then show ?case by (auto simp: skipWs_def dest: dropWhile_Cons_shorter)
next
  case (4 acc s)
  then show ?case by simp
next
  case (5 acc s x v r c r')
  then show ?case by (auto simp: skipWs_def dest: dropWhile_Cons_shorter)
next
  case (6 acc s q r0 x k r1 c r2)
  then show ?case by simp
next
  case (7 acc s q r0 x k r1 c r2 y v r3 d r4)
  then show ?case by (auto simp: skipWs_def dest!: dropWhile_Cons_shorter)
qed

declare parseValue.simps [simp del] parseElements.simps [simp del] parseMembers.simps [simp del]

definition parseJSON :: "string \<Rightarrow> json option" where
  "parseJSON s =
     (case parseValue s of
        None \<Rightarrow> None
      | Some (v, r) \<Rightarrow> if skipWs r = [] then Some v else None)"

text \<open>The decimal text of a number.\<close>

fun fractionDigits :: "nat \<Rightarrow> rat \<Rightarrow> string" where
  "fractionDigits 0 f = []"
| "fractionDigits (Suc n) f =
     (if f = 0 then []
      else char_of (48 + nat \<lfloor>f * 10\<rfloor>) # fractionDigits n (f * 10 - of_int \<lfloor>f * 10\<rfloor>))"

definition showNumber :: "rat \<Rightarrow> string" where
  "showNumber q =
     (let a = \<bar>q\<bar>; whole = \<lfloor>a\<rfloor>; f = a - of_int whole
      in (if q < 0 then ''-'' else []) @ showNat (nat whole) @
         (if f = 0 then [] else ''.'' @ fractionDigits 20 f))"

text \<open>The indented serialisation of a tree.\<close>

definition hexChar :: "nat \<Rightarrow> char" where
  "hexChar n = (if n < 10 then char_of (48 + n) else char_of (87 + n))"

definition escapeChar :: "char \<Rightarrow> string" where
  "escapeChar c =
     (let n = (of_char c :: nat) in
      if c = CHR 0x22 then [CHR 0x5C, CHR 0x22]
      else if c = CHR 0x5C then [CHR 0x5C, CHR 0x5C]
      else if n = 8 then [CHR 0x5C, CHR ''b'']
      else if n = 12 then [CHR 0x5C, CHR ''f'']
      else if n = 10 then [CHR 0x5C, CHR ''n'']
      else if n = 13 then [CHR 0x5C, CHR ''r'']
      else if n = 9 then [CHR 0x5C, CHR ''t'']
      else if n < 32 then [CHR 0x5C, CHR ''u'', CHR ''0'', CHR ''0'', hexChar (n div 16), hexChar (n mod 16)]
      else [c])"

definition quoteString :: "string \<Rightarrow> string" where
  "quoteString s = [CHR 0x22] @ concat (map escapeChar s) @ [CHR 0x22]"

fun renderJSON :: "string \<Rightarrow> json \<Rightarrow> string"
  and renderElements :: "string \<Rightarrow> json list \<Rightarrow> string list"
  and renderMembers :: "string \<Rightarrow> (string \<times> json) list \<Rightarrow> string list" where
  "renderJSON ind JNull = ''null''"
| "renderJSON ind (JBool b) = (if b then ''true'' else ''false'')"
| "renderJSON ind (JNum n) = showNumber n"
| "renderJSON ind (JStr s) = quoteString s"
| "renderJSON ind (JArr xs) =
     (if xs = [] then ''[]''
      else ''['' @ [CHR 0x0A] @ ind @ ''  ''
           @ joinWith ('','' @ [CHR 0x0A] @ ind @ ''  '') (renderElements (ind @ ''  '') xs)
           @ [CHR 0x0A] @ ind @ '']'')"
| "renderJSON ind (JObj kvs) =
     (if kvs = [] then ''{}''
      else ''{'' @ [CHR 0x0A] @ ind @ ''  ''
           @ joinWith ('','' @ [CHR 0x0A] @ ind @ ''  '') (renderMembers (ind @ ''  '') kvs)
           @ [CHR 0x0A] @ ind @ ''}'')"
| "renderElements ind [] = []"
| "renderElements ind (x # xs) = renderJSON ind x # renderElements ind xs"
| "renderMembers ind [] = []"
| "renderMembers ind ((k, v) # kvs) =
     (quoteString k @ '': '' @ renderJSON ind v) # renderMembers ind kvs"

definition refPlatform :: platform where
  "refPlatform =
     \<lparr>JSON_parse = parseJSON, JSON_stringify = renderJSON [], Number_toString = showNumber\<rparr>"

subsection \<open>The merge in the words of the specification\<close>

text \<open>
  The declared identifier of a finding, and the first occurrences of a list: an item is
  kept exactly when no earlier item of the list has the same identifier.
\<close>

definition idOf :: "json \<Rightarrow> json option" where
  "idOf item = field item ''id''"

fun firstOcc :: "json list \<Rightarrow> json list \<Rightarrow> json list" where
  "firstOcc before [] = []"
| "firstOcc before (x # xs) =
     (if \<exists>b \<in> set before. sameValueZero (idOf b) (idOf x)
      then firstOcc (before @ [x]) xs
      else x # firstOcc (before @ [x]) xs)"

definition firstOccurrences :: "json list \<Rightarrow> json list" where
  "firstOccurrences xs = firstOcc [] xs"

text \<open>
  A successful per-chunk result is what \<open>analyzeSingleChunk\<close> returns: the transform of a
  truthy parsed value. The items of one category over all chunks, in chunk order.
\<close>

definition successfulResult :: "platform \<Rightarrow> analysis \<Rightarrow> bool" where
  "successfulResult P r = (truthy (rawResult r) \<and> transformSOC1Result P (rawResult r) = Inr r)"

definition categoryItems :: "string \<Rightarrow> analysis list \<Rightarrow> json list" where
  "categoryItems name rs = concat (map (\<lambda>r. arrayField (rawResult r) name) rs)"

text \<open>
  The executive summary of a chunk, the first one the merge takes (the first truthy one),
  and the first one that is not \<open>null\<close>. The two agree when every summary is an object,
  \<open>null\<close> or absent, as the record schema has it.
\<close>

definition summaryOf :: "analysis \<Rightarrow> json option" where
  "summaryOf r = field (rawResult r) ''executiveSummary''"

definition firstSummary :: "analysis list \<Rightarrow> json" where
  "firstSummary rs =
     (case find (\<lambda>r. truthyOpt (summaryOf r)) rs of
        None \<Rightarrow> JNull
      | Some r \<Rightarrow> the (summaryOf r))"









subsection \<open>Regular expressions of the parsing strategies, as list functions\<close>

text \<open>
  Each regular expression of the source is written as the function that computes its
  (backtracking) match. \<open>/\{[\s\S]*\}/\<close>: from the first opening brace to the last closing
  brace after it.
\<close>

definition braceSpan :: "string \<Rightarrow> string option" where
  "braceSpan content =
     (case dropWhile (\<lambda>c. c \<noteq> CHR ''{'') content of
        [] \<Rightarrow> None
      | b # r \<Rightarrow>
          if CHR ''}'' \<in> set r
          then Some (b # rev (dropWhile (\<lambda>c. c \<noteq> CHR ''}'') (rev r)))
          else None)"

text \<open>
  \<open>/```(?:json)?\s*(\{[\s\S]*?\})\s*```/\<close>, capture group 1. At a fence, after an optional
  \<open>json\<close> and white space, an opening brace must follow; the lazy body ends at the first
  closing brace that is followed by white space and a fence. The search moves on to later
  positions when a fence does not match.
\<close>

definition backticks :: string where
  "backticks = [CHR 0x60, CHR 0x60, CHR 0x60]"

fun closeFence :: "string \<Rightarrow> string \<Rightarrow> string option" where
  "closeFence acc [] = None"
| "closeFence acc (c # cs) =
     (if c = CHR ''}'' \<and> take 3 (dropWhile isWhiteSpace cs) = backticks
      then Some (rev (c # acc))
      else closeFence (c # acc) cs)"

definition fenceAt :: "string \<Rightarrow> string option" where
  "fenceAt s =
     (if take 3 s = backticks then
        (let after = drop 3 s;
             tagged = (if take 4 after = ''json'' then drop 4 after else after)
         in case dropWhile isWhiteSpace tagged of
              [] \<Rightarrow> None
            | c # rest \<Rightarrow> if c = CHR ''{'' then closeFence [c] rest else None)
      else None)"

fun fencedBlock :: "string \<Rightarrow> string option" where
  "fencedBlock [] = None"
| "fencedBlock (c # cs) =
     (case fenceAt (c # cs) of Some m \<Rightarrow> Some m | None \<Rightarrow> fencedBlock cs)"

text \<open>\<open>.replace(/^[^{]*/, '')\<close> and \<open>.replace(/[^}]*$/, '')\<close>.\<close>

definition stripBeforeBrace :: "string \<Rightarrow> string" where
  "stripBeforeBrace s = dropWhile (\<lambda>c. c \<noteq> CHR ''{'') s"

definition stripAfterBrace :: "string \<Rightarrow> string" where
  "stripAfterBrace s = rev (dropWhile (\<lambda>c. c \<noteq> CHR ''}'') (rev s))"

definition startsWith :: "string \<Rightarrow> char \<Rightarrow> bool" where
  "startsWith s c = (case s of [] \<Rightarrow> False | a # _ \<Rightarrow> a = c)"

definition endsWith :: "string \<Rightarrow> char \<Rightarrow> bool" where
  "endsWith s c = startsWith (rev s) c"

text \<open>
  A global \<open>replace\<close> with a regular expression that matches no empty string: at each
  position the matcher gives the replacement and the length of the match, and the search
  resumes behind the match.
\<close>

function replaceAll :: "(string \<Rightarrow> (string \<times> nat) option) \<Rightarrow> string \<Rightarrow> string" where
  "replaceAll m [] = []"
| "replaceAll m (c # cs) =
     (case m (c # cs) of
        None \<Rightarrow> c # replaceAll m cs
      | Some (rep, n) \<Rightarrow>
          if n = 0 then c # replaceAll m cs else rep @ replaceAll m (drop n (c # cs)))"
  by pat_completeness auto
termination
  by (relation "measure (\<lambda>(m, s). length s)") auto

text \<open>
  \<open>/\n\s*\n/\<close> at the start of \<open>s\<close>: a line feed, then white space up to the last line feed
  of the white-space run. The result is the length of the match.
\<close>

definition blankLineMatch :: "string \<Rightarrow> nat option" where
  "blankLineMatch s =
     (case s of
        [] \<Rightarrow> None
      | c # r \<Rightarrow>
          if c = CHR 0x0A \<and> CHR 0x0A \<in> set (takeWhile isWhiteSpace r)
          then Some (1 + length (rev (dropWhile (\<lambda>d. d \<noteq> CHR 0x0A) (rev (takeWhile isWhiteSpace r)))))
          else None)"

text \<open>\<open>/,\s*}/\<close> and \<open>/,\s*]/\<close>, replaced by the closing character.\<close>

definition trailingCommaMatch :: "char \<Rightarrow> string \<Rightarrow> (string \<times> nat) option" where
  "trailingCommaMatch close s =
     (case s of
        [] \<Rightarrow> None
      | c # r \<Rightarrow>
          if c = CHR '','' \<and> startsWith (dropWhile isWhiteSpace r) close
          then Some ([close], 1 + length (takeWhile isWhiteSpace r) + 1)
          else None)"

definition isWordChar :: "char \<Rightarrow> bool" where
  "isWordChar c =
     (let n = (of_char c :: nat) in
      (48 \<le> n \<and> n \<le> 57) \<or> (65 \<le> n \<and> n \<le> 90) \<or> (97 \<le> n \<and> n \<le> 122) \<or> n = 95)"

text \<open>\<open>/([{,]\s*)(\w+):/\<close>, replaced by \<open>$1"$2":\<close>.\<close>

definition bareKeyMatch :: "string \<Rightarrow> (string \<times> nat) option" where
  "bareKeyMatch s =
     (case s of
        [] \<Rightarrow> None
      | c # r \<Rightarrow>
          if c = CHR ''{'' \<or> c = CHR '','' then
            (let ws = takeWhile isWhiteSpace r;
                 r1 = dropWhile isWhiteSpace r;
                 w = takeWhile isWordChar r1
             in if w \<noteq> [] \<and> startsWith (dropWhile isWordChar r1) (CHR '':'')
                then Some (c # ws @ [CHR 0x22] @ w @ [CHR 0x22, CHR '':''],
                           1 + length ws + length w + 1)
                else None)
          else None)"

text \<open>\<open>/:\s*([^",{\[\s][^,}\]]*?)([,}\]])/\<close>, replaced by \<open>: "$1"$2\<close>.\<close>

definition isTerminator :: "char \<Rightarrow> bool" where
  "isTerminator c = (c = CHR '','' \<or> c = CHR ''}'' \<or> c = CHR '']'')"

definition bareValueMatch :: "string \<Rightarrow> (string \<times> nat) option" where
  "bareValueMatch s =
     (case s of
        [] \<Rightarrow> None
      | c # r \<Rightarrow>
          if c = CHR '':'' then
            (let ws = takeWhile isWhiteSpace r in
             case dropWhile isWhiteSpace r of
               [] \<Rightarrow> None
             | v # r2 \<Rightarrow>
                 if v = CHR 0x22 \<or> v = CHR '','' \<or> v = CHR ''{'' \<or> v = CHR ''['' then None
                 else
                   (let body = takeWhile (\<lambda>d. \<not> isTerminator d) r2 in
                    case dropWhile (\<lambda>d. \<not> isTerminator d) r2 of
                      [] \<Rightarrow> None
                    | t # _ \<Rightarrow>
                        Some ('': '' @ [CHR 0x22] @ v # body @ [CHR 0x22, t],
                              1 + length ws + 1 + length body + 1)))
          else None)"

subsection \<open>The cascade of JSON strategies\<close>

text \<open>
  \<open>try { result = JSON.parse(text) } catch (e) { }\<close>: on a throw \<open>result\<close> keeps its value.
  \<open>result\<close> is \<open>None\<close> while it is the initial \<open>null\<close>.
\<close>

definition tryParse :: "platform \<Rightarrow> string \<Rightarrow> json option \<Rightarrow> json option" where
  "tryParse P text result = (case JSON_parse P text of None \<Rightarrow> result | Some v \<Rightarrow> Some v)"

definition strategy1 :: "platform \<Rightarrow> string \<Rightarrow> json option" where
  "strategy1 P content =
     (case braceSpan content of None \<Rightarrow> None | Some m \<Rightarrow> tryParse P m None)"

definition strategy2 :: "platform \<Rightarrow> string \<Rightarrow> json option \<Rightarrow> json option" where
  "strategy2 P content result =
     (if \<not> truthyOpt result then tryParse P content result else result)"

definition strategy3 :: "platform \<Rightarrow> string \<Rightarrow> json option \<Rightarrow> json option" where
  "strategy3 P content result =
     (if \<not> truthyOpt result then
        (case fencedBlock content of None \<Rightarrow> result | Some m \<Rightarrow> tryParse P m result)
      else result)"

definition strategy4 :: "platform \<Rightarrow> string \<Rightarrow> json option \<Rightarrow> json option" where
  "strategy4 P content result =
     (if \<not> truthyOpt result then
        (let cleanedContent = trim (stripAfterBrace (stripBeforeBrace content)) in
         if startsWith cleanedContent (CHR ''{'') \<and> endsWith cleanedContent (CHR ''}'')
         then tryParse P cleanedContent result
         else result)
      else result)"

definition aggressiveClean :: "string \<Rightarrow> string" where
  "aggressiveClean content =
     (let c1 = stripAfterBrace (stripBeforeBrace content);
          c2 = replaceAll (\<lambda>s. map_option (Pair [CHR 0x0A]) (blankLineMatch s)) c1;
          c3 = replaceAll (trailingCommaMatch (CHR ''}'')) c2;
          c4 = replaceAll (trailingCommaMatch (CHR '']'')) c3;
          c5 = trim c4;
          c6 = replaceAll bareKeyMatch c5
      in replaceAll bareValueMatch c6)"

definition strategy5 :: "platform \<Rightarrow> bool \<Rightarrow> string \<Rightarrow> json option \<Rightarrow> json option" where
  "strategy5 P useLocalModel content result =
     (if \<not> truthyOpt result \<and> useLocalModel then
        (let cleanedContent = aggressiveClean content in
         if startsWith cleanedContent (CHR ''{'') \<and> endsWith cleanedContent (CHR ''}'')
         then tryParse P cleanedContent result
         else result)
      else result)"

definition jsonStrategies :: "platform \<Rightarrow> bool \<Rightarrow> string \<Rightarrow> json option" where
  "jsonStrategies P useLocalModel content =
     strategy5 P useLocalModel content
       (strategy4 P content (strategy3 P content (strategy2 P content (strategy1 P content))))"

subsection \<open>Extraction from natural language\<close>

text \<open>
  The patterns carry the flag \<open>i\<close>: a letter of a pattern matches both of its ASCII cases
  (a code unit above 127 never matches an ASCII letter).
\<close>

definition lowerChar :: "char \<Rightarrow> char" where
  "lowerChar c =
     (let n = (of_char c :: nat) in if 65 \<le> n \<and> n \<le> 90 then char_of (n + 32) else c)"

definition prefixCI :: "string \<Rightarrow> string \<Rightarrow> bool" where
  "prefixCI lit s =
     (length lit \<le> length s \<and> map lowerChar (take (length lit) s) = map lowerChar lit)"

text \<open>
  The tail \<open>[:\s]*([^.\n]+)\<close> of a label pattern, on the text behind the label. The
  separators are taken greedily; the capture is the run up to the next full stop or line
  feed. When no character is left for the capture, the separators give back their last
  character that is not a line feed, and the capture is that one character.
\<close>

definition isSeparator :: "char \<Rightarrow> bool" where
  "isSeparator c = (c = CHR '':'' \<or> isWhiteSpace c)"

definition notStop :: "char \<Rightarrow> bool" where
  "notStop c = (c \<noteq> CHR ''.'' \<and> c \<noteq> CHR 0x0A)"

definition captureAfter :: "string \<Rightarrow> string option" where
  "captureAfter r =
     (let seps = takeWhile isSeparator r;
          r1 = dropWhile isSeparator r
      in if r1 \<noteq> [] \<and> hd r1 \<noteq> CHR ''.'' then Some (takeWhile notStop r1)
         else (case dropWhile (\<lambda>c. c = CHR 0x0A) (rev seps) of
                 [] \<Rightarrow> None
               | c # _ \<Rightarrow> Some [c]))"

text \<open>\<open>content.match(/label[:\s]*([^.\n]+)/i)\<close>: group 1 of the leftmost match.\<close>

fun labelMatch :: "string \<Rightarrow> string \<Rightarrow> string option" where
  "labelMatch lit [] = None"
| "labelMatch lit (c # cs) =
     (if prefixCI lit (c # cs) then
        (case captureAfter (drop (length lit) (c # cs)) of
           Some cap \<Rightarrow> Some cap
         | None \<Rightarrow> labelMatch lit cs)
      else labelMatch lit cs)"

text \<open>\<open>content.match(/word/i)\<close>: the matched text itself.\<close>

fun wordMatch :: "string \<Rightarrow> string \<Rightarrow> string option" where
  "wordMatch lit [] = None"
| "wordMatch lit (c # cs) =
     (if prefixCI lit (c # cs) then Some (take (length lit) (c # cs)) else wordMatch lit cs)"

text \<open>
  The loop over the patterns of a summary field: the first pattern whose capture has more
  than two characters after trimming sets the field.
\<close>

fun firstLabel :: "string list \<Rightarrow> string \<Rightarrow> string option" where
  "firstLabel [] content = None"
| "firstLabel (lit # lits) content =
     (case labelMatch lit content of
        Some cap \<Rightarrow> if length (trim cap) > 2 then Some (trim cap) else firstLabel lits content
      | None \<Rightarrow> firstLabel lits content)"

text \<open>
  The loop over the opinion patterns: the first pattern that matches at all sets the
  field, to the trimmed capture or to the trimmed keyword.
\<close>

fun firstWord :: "string list \<Rightarrow> string \<Rightarrow> string option" where
  "firstWord [] content = None"
| "firstWord (lit # lits) content =
     (case wordMatch lit content of
        Some m \<Rightarrow> Some (trim m)
      | None \<Rightarrow> firstWord lits content)"

definition opinionOf :: "string \<Rightarrow> string option" where
  "opinionOf content =
     (case labelMatch ''opinion'' content of
        Some cap \<Rightarrow> Some (trim cap)
      | None \<Rightarrow> firstWord [''unqualified'', ''qualified'', ''adverse'', ''disclaimer''] content)"

text \<open>
  The keyword patterns \<open>/keyword[^.]*?([^.\n]+)/gi\<close>. The keyword of carve-outs is
  \<open>carve.out\<close>, whose dot matches any character but a line terminator. Behind the keyword
  the lazy part takes line feeds only, and the capture is the run up to the next full stop
  or line feed. The result is the length of the match.
\<close>

definition keywordAt :: "bool \<Rightarrow> string \<Rightarrow> string \<Rightarrow> bool" where
  "keywordAt carve lit s =
     (if carve then
        prefixCI ''carve'' s \<and> length s \<ge> 9 \<and> s ! 5 \<noteq> CHR 0x0A \<and> s ! 5 \<noteq> CHR 0x0D \<and>
        prefixCI ''out'' (drop 6 s)
      else prefixCI lit s)"

definition sentenceMatch :: "bool \<Rightarrow> string \<Rightarrow> string \<Rightarrow> nat option" where
  "sentenceMatch carve lit s =
     (if keywordAt carve lit s then
        (let k = (if carve then 9 else length lit);
             feeds = takeWhile (\<lambda>c. c = CHR 0x0A) (drop k s);
             r = dropWhile (\<lambda>c. c = CHR 0x0A) (drop k s)
         in if r \<noteq> [] \<and> hd r \<noteq> CHR ''.''
            then Some (k + length feeds + length (takeWhile notStop r))
            else None)
      else None)"

text \<open>\<open>content.match(regex)\<close> with the flag \<open>g\<close>: all matches, left to right.\<close>

function allMatches :: "(string \<Rightarrow> nat option) \<Rightarrow> string \<Rightarrow> string list" where
  "allMatches m [] = []"
| "allMatches m (c # cs) =
     (case m (c # cs) of
        None \<Rightarrow> allMatches m cs
      | Some n \<Rightarrow>
          if n = 0 then allMatches m cs
          else take n (c # cs) # allMatches m (drop n (c # cs)))"
  by pat_completeness auto
termination
  by (relation "measure (\<lambda>(m, s). length s)") auto

text \<open>The entries synthesised from the matches, numbered from 1.\<close>

definition extractedControl :: "nat \<Rightarrow> string \<Rightarrow> json" where
  "extractedControl index m = JObj
     [(''id'', JStr (''extracted-control-failure-'' @ showNat (index + 1))),
      (''description'', JStr (trim m)),
      (''type'', JStr ''unknown''),
      (''effectiveness'', JStr ''not_tested''),
      (''exceptions'', JArr [JStr ''Extracted from natural language'']),
      (''pageNumbers'', JArr [JNum 1]),
      (''confidenceScore'', JNum (7 / 10))]"

definition extractedExclusion :: "nat \<Rightarrow> string \<Rightarrow> json" where
  "extractedExclusion index m = JObj
     [(''id'', JStr (''extracted-exclusion-'' @ showNat (index + 1))),
      (''description'', JStr (trim m)),
      (''reason'', JStr ''Extracted from natural language response''),
      (''pageNumbers'', JArr [JNum 1]),
      (''confidenceScore'', JNum (7 / 10))]"

definition extractedCarveOut :: "nat \<Rightarrow> string \<Rightarrow> json" where
  "extractedCarveOut index m = JObj
     [(''id'', JStr (''extracted-carveout-'' @ showNat (index + 1))),
      (''description'', JStr (trim m)),
      (''provider'', JStr ''Unknown''),
      (''reason'', JStr ''Extracted from natural language response''),
      (''pageNumbers'', JArr [JNum 1]),
      (''confidenceScore'', JNum (7 / 10))]"

definition orNotSpecified :: "string option \<Rightarrow> string" where
  "orNotSpecified v = (case v of None \<Rightarrow> ''Not specified'' | Some s \<Rightarrow> s)"

definition extractFromNaturalLanguage :: "string \<Rightarrow> json option" where
  "extractFromNaturalLanguage content =
     (let serviceOrganization = orNotSpecified
            (firstLabel [''service organization'', ''organization'', ''company'', ''entity''] content);
          auditor = orNotSpecified
            (firstLabel [''auditor'', ''audit firm'', ''cpa firm'', ''examiner''] content);
          reportPeriod = orNotSpecified
            (firstLabel [''report period'', ''period'', ''as of'', ''through''] content);
          opinion = orNotSpecified (opinionOf content);
          controlFailures = map (\<lambda>(index, m). extractedControl index m)
            (enumerate 0 (allMatches (sentenceMatch False ''control failure'') content));
          exclusions = map (\<lambda>(index, m). extractedExclusion index m)
            (enumerate 0 (allMatches (sentenceMatch False ''exclusion'') content));
          carveOuts = map (\<lambda>(index, m). extractedCarveOut index m)
            (enumerate 0 (allMatches (sentenceMatch True ''carve.out'') content));
          hasContent = (serviceOrganization \<noteq> ''Not specified'' \<or> auditor \<noteq> ''Not specified'' \<or>
            length controlFailures > 0 \<or> length exclusions > 0 \<or> length carveOuts > 0)
      in if hasContent then
           Some (JObj
             [(''executiveSummary'', JObj
                 [(''reportPeriod'', JStr reportPeriod),
                  (''serviceOrganization'', JStr serviceOrganization),
                  (''auditor'', JStr auditor),
                  (''opinion'', JStr opinion)]),
              (''controlFailures'', JArr controlFailures),
              (''exclusions'', JArr exclusions),
              (''carveOuts'', JArr carveOuts)])
         else None)"

subsection \<open>The terminal fallback and the parsing stage\<close>

definition truncatedContent :: "string \<Rightarrow> string" where
  "truncatedContent content =
     (if length content > 1000 then take 1000 content @ ''...'' else content)"

definition createFallbackResult :: "string \<Rightarrow> json" where
  "createFallbackResult content = JObj
     [(''executiveSummary'', JObj
         [(''reportPeriod'', JStr ''Unable to extract - see raw content''),
          (''serviceOrganization'', JStr ''Unable to extract - see raw content''),
          (''auditor'', JStr ''Unable to extract - see raw content''),
          (''opinion'', JStr ''Unable to extract - see raw content'')]),
      (''controlFailures'', JArr
         [JObj
            [(''id'', JStr ''fallback-control-failure-1''),
             (''description'', JStr
                (''Raw AI response could not be parsed as JSON. Response length: ''
                 @ showNat (length content) @ '' characters. Check console for full response.'')),
             (''type'', JStr ''unknown''),
             (''effectiveness'', JStr ''not_tested''),
             (''exceptions'', JArr [JStr ''JSON parsing failed'']),
             (''pageNumbers'', JArr [JNum 1]),
             (''confidenceScore'', JNum (1 / 10))]]),
      (''exclusions'', JArr
         [JObj
            [(''id'', JStr ''fallback-exclusion-1''),
             (''description'', JStr
                (''AI response parsing failed. Raw content preview: ''
                 @ truncatedContent content)),
             (''reason'', JStr
                (''The local model may not be following the expected JSON format. ''
                 @ ''Check console logs for the full response.'')),
             (''pageNumbers'', JArr [JNum 1]),
             (''confidenceScore'', JNum (1 / 10))]]),
      (''carveOuts'', JArr
         [JObj
            [(''id'', JStr ''fallback-carveout-1''),
             (''description'', JStr ''Unable to extract carve-outs due to JSON parsing error''),
             (''provider'', JStr ''Unknown''),
             (''reason'', JStr
                ''Local model response format issue. Check console for actual response.''),
             (''pageNumbers'', JArr [JNum 1]),
             (''confidenceScore'', JNum (1 / 10))]])]"

text \<open>
  The \<open>try\<close> block of \<open>analyzeSingleChunk\<close> that follows \<open>normalizeContent\<close>. Anything thrown
  inside it (only \<open>transformSOC1Result\<close> can throw) is caught and thrown again as the
  error "AI response could not be parsed as valid JSON".
\<close>

definition transformOrThrow :: "platform \<Rightarrow> json \<Rightarrow> error + analysis" where
  "transformOrThrow P result =
     (case transformSOC1Result P result of
        Inl e \<Rightarrow> Inl ResponseNotParsed
      | Inr transformed \<Rightarrow> Inr transformed)"

definition parseStage :: "platform \<Rightarrow> bool \<Rightarrow> string \<Rightarrow> error + analysis" where
  "parseStage P useLocalModel content =
     (let result = jsonStrategies P useLocalModel content in
      if truthyOpt result then transformOrThrow P (the result)
      else
        (case extractFromNaturalLanguage content of
           Some extracted \<Rightarrow> transformOrThrow P extracted
         | None \<Rightarrow> transformOrThrow P (createFallbackResult content)))"

subsection \<open>Normalising the response envelope\<close>

text \<open>
  The replacer of \<open>safeStringify\<close>, applied by \<open>JSON.stringify\<close> to the root and then to every
  member and element in document order. The counter \<open>depth\<close> is shared by all calls: it is
  incremented at every object or array the replacer lets through and is never decremented.
  The result is the tree that \<open>JSON.stringify\<close> then writes out, and the counter. On a
  parsed tree no reference occurs twice, so the test \<open>seen.has(value)\<close> never holds.
\<close>

definition maxDepth :: nat where
  "maxDepth = 3"

definition replaceString :: "nat \<Rightarrow> string \<Rightarrow> json" where
  "replaceString depth s =
     (if depth > maxDepth then JStr ''[Max Depth Reached]''
      else if length s > 1000 then JStr (take 1000 s @ ''...[Truncated]'')
      else JStr s)"

fun replaceValue :: "nat \<Rightarrow> json \<Rightarrow> json \<times> nat"
  and replaceElements :: "nat \<Rightarrow> nat \<Rightarrow> json list \<Rightarrow> json list \<times> nat"
  and replaceMembers :: "nat \<Rightarrow> (string \<times> json) list \<Rightarrow> (string \<times> json) list \<times> nat" where
  "replaceValue depth (JObj kvs) =
     (if depth > maxDepth then (JStr ''[Max Depth Reached]'', depth)
      else (case replaceMembers (depth + 1) kvs of (kvs', d) \<Rightarrow> (JObj kvs', d)))"
| "replaceValue depth (JArr xs) =
     (if depth > maxDepth then (JStr ''[Max Depth Reached]'', depth)
      else if length xs > 100 then
        (case replaceElements (depth + 1) 100 xs of
           (xs', d) \<Rightarrow>
             (JArr (xs' @ [replaceString d ''[Array Truncated - showing first 100 items]'']), d))
      else (case replaceElements (depth + 1) (length xs) xs of (xs', d) \<Rightarrow> (JArr xs', d)))"
| "replaceValue depth (JStr s) = (replaceString depth s, depth)"
| "replaceValue depth v =
     (if depth > maxDepth then (JStr ''[Max Depth Reached]'', depth) else (v, depth))"
| "replaceElements depth n [] = ([], depth)"
| "replaceElements depth n (x # xs) =
     (if n = 0 then ([], depth)
      else (case replaceValue depth x of
              (x', d) \<Rightarrow>
                (case replaceElements d (n - 1) xs of (xs', d') \<Rightarrow> (x' # xs', d'))))"
| "replaceMembers depth [] = ([], depth)"
| "replaceMembers depth ((k, v) # kvs) =
     (case replaceValue depth v of
        (v', d) \<Rightarrow> (case replaceMembers d kvs of (kvs', d') \<Rightarrow> ((k, v') # kvs', d')))"

definition safeStringify :: "platform \<Rightarrow> json \<Rightarrow> string" where
  "safeStringify P obj = JSON_stringify P (fst (replaceValue 0 obj))"

text \<open>
  \<open>payload?.choices?.[0]\<close>: optional chaining stops at \<open>null\<close> and \<open>undefined\<close>; index 0 of
  an array is its first element, of a string its first character, of an object its member
  named \<open>0\<close>.
\<close>

definition firstChoice :: "json \<Rightarrow> json option" where
  "firstChoice payload =
     (case payload of
        JNull \<Rightarrow> None
      | _ \<Rightarrow>
          (case field payload ''choices'' of
             Some (JArr xs) \<Rightarrow> (case xs of [] \<Rightarrow> None | x # _ \<Rightarrow> Some x)
           | Some (JStr s) \<Rightarrow> (case s of [] \<Rightarrow> None | c # _ \<Rightarrow> Some (JStr [c]))
           | Some (JObj kvs) \<Rightarrow> map_of kvs ''0''
           | _ \<Rightarrow> None))"

text \<open>\<open>v ?? {}\<close>\<close>

definition orEmptyObject :: "json option \<Rightarrow> json" where
  "orEmptyObject v = (case v of None \<Rightarrow> JObj [] | Some JNull \<Rightarrow> JObj [] | Some w \<Rightarrow> w)"

text \<open>\<open>typeof part === 'string' ? part : part?.text ?? ''\<close>\<close>

definition partText :: "json \<Rightarrow> json" where
  "partText part =
     (case part of
        JStr s \<Rightarrow> part
      | JNull \<Rightarrow> JStr []
      | _ \<Rightarrow> (case field part ''text'' of None \<Rightarrow> JStr [] | Some JNull \<Rightarrow> JStr [] | Some t \<Rightarrow> t))"

text \<open>\<open>parts.join('')\<close>; converting an element to text can throw.\<close>

definition joinParts :: "platform \<Rightarrow> json list \<Rightarrow> error + string" where
  "joinParts P parts =
     (case ToStringElems P parts of Inl e \<Rightarrow> Inl e | Inr ss \<Rightarrow> Inr (concat ss))"

text \<open>\<open>message && Object.keys(message).length > 0\<close>\<close>

definition hasKeys :: "json \<Rightarrow> bool" where
  "hasKeys message =
     (case message of
        JObj kvs \<Rightarrow> kvs \<noteq> []
      | JArr xs \<Rightarrow> xs \<noteq> []
      | JStr s \<Rightarrow> s \<noteq> []
      | _ \<Rightarrow> False)"

definition stringContent :: "json \<Rightarrow> string option" where
  "stringContent v =
     (case field v ''content'' of
        Some (JStr s) \<Rightarrow> if trim s \<noteq> [] then Some s else None
      | _ \<Rightarrow> None)"

definition normalizeContent :: "platform \<Rightarrow> json \<Rightarrow> string" where
  "normalizeContent P payload =
     (let choice = orEmptyObject (firstChoice payload);
          message = orEmptyObject (field choice ''message'')
      in case stringContent message of
           Some s \<Rightarrow> s
         | None \<Rightarrow>
        (case stringContent choice of
           Some s \<Rightarrow> s
         | None \<Rightarrow>
        (case (case field message ''content'' of
                 Some (JArr parts) \<Rightarrow>
                   (case joinParts P (map partText parts) of
                      Inl e \<Rightarrow> Some []
                    | Inr joined \<Rightarrow> if trim joined \<noteq> [] then Some joined else None)
               | _ \<Rightarrow> None) of
           Some s \<Rightarrow> s
         | None \<Rightarrow>
             if hasKeys message then safeStringify P message else safeStringify P payload)))"

subsection \<open>Splitting the text into chunks\<close>

text \<open>
  \<open>String.prototype.split\<close> with a regular expression that matches no empty string: the
  pieces between the matches, the last one up to the end of the text.
\<close>

function splitRegex :: "(string \<Rightarrow> nat option) \<Rightarrow> string \<Rightarrow> string \<Rightarrow> string list" where
  "splitRegex m piece [] = [piece]"
| "splitRegex m piece (c # cs) =
     (case m (c # cs) of
        None \<Rightarrow> splitRegex m (piece @ [c]) cs
      | Some n \<Rightarrow>
          if n = 0 then splitRegex m (piece @ [c]) cs
          else piece # splitRegex m [] (drop n (c # cs)))"
  by pat_completeness auto
termination
  by (relation "measure (\<lambda>(m, piece, s). length s)") auto

text \<open>\<open>/[.!?]+\s+/\<close> at the start of \<open>s\<close>.\<close>

definition isSentenceEnd :: "char \<Rightarrow> bool" where
  "isSentenceEnd c = (c = CHR ''.'' \<or> c = CHR ''!'' \<or> c = CHR ''?'')"

definition sentenceBreakMatch :: "string \<Rightarrow> nat option" where
  "sentenceBreakMatch s =
     (let marks = takeWhile isSentenceEnd s;
          spaces = takeWhile isWhiteSpace (dropWhile isSentenceEnd s)
      in if marks \<noteq> [] \<and> spaces \<noteq> [] then Some (length marks + length spaces) else None)"

text \<open>
  One turn of the accumulating loops, on the pair of the chunks pushed so far and the
  current chunk; \<open>sep\<close> is \<open>\n\n\<close> for paragraphs and \<open>. \<close> for sentences. Then the push
  of the last chunk when it has content.
\<close>

definition accumulateStep ::
  "nat \<Rightarrow> string \<Rightarrow> string list \<times> string \<Rightarrow> string \<Rightarrow> string list \<times> string" where
  "accumulateStep maxChars sep state piece =
     (case state of
        (chunks, currentChunk) \<Rightarrow>
          if length currentChunk + length piece > maxChars \<and> length currentChunk > 0
          then (chunks @ [trim currentChunk], piece)
          else (chunks, currentChunk @ (if currentChunk \<noteq> [] then sep else []) @ piece))"

definition accumulate :: "nat \<Rightarrow> string \<Rightarrow> string list \<Rightarrow> string list" where
  "accumulate maxChars sep pieces =
     (case foldl (accumulateStep maxChars sep) ([], []) pieces of
        (chunks, currentChunk) \<Rightarrow>
          if trim currentChunk \<noteq> [] then chunks @ [trim currentChunk] else chunks)"

definition splitTextIntoChunks :: "string \<Rightarrow> nat \<Rightarrow> string list" where
  "splitTextIntoChunks text maxTokens =
     (let maxChars = maxTokens * 4;
          paragraphs = splitRegex blankLineMatch [] text;
          chunks = accumulate maxChars [CHR 0x0A, CHR 0x0A] paragraphs
      in concat (map (\<lambda>chunk.
           if length chunk > maxChars
           then accumulate maxChars ''. '' (splitRegex sentenceBreakMatch [] chunk)
           else [chunk]) chunks))"

subsection \<open>Analysing one chunk and several chunks\<close>

text \<open>
  The exchange with the model is external: \<open>respond\<close> maps the text sent to the parsed
  response body, or to the error thrown by the request (connection failure, HTTP status,
  unreadable body). The \<open>catch\<close> at the end of \<open>analyzeSingleChunk\<close> throws again whatever
  it catches, at most under another message.
\<close>

text \<open>
  \<open>!data.choices || data.choices.length === 0\<close>, negated; reading \<open>choices\<close> of \<open>null\<close>
  throws.
\<close>

definition hasChoices :: "json \<Rightarrow> error + bool" where
  "hasChoices data =
     (case data of
        JNull \<Rightarrow> Inl TypeError
      | _ \<Rightarrow>
          (case field data ''choices'' of
             None \<Rightarrow> Inr False
           | Some choices \<Rightarrow>
               Inr (truthy choices \<and>
                    (case choices of
                       JArr xs \<Rightarrow> xs \<noteq> []
                     | JObj kvs \<Rightarrow> map_of kvs ''length'' \<noteq> Some (JNum 0)
                     | _ \<Rightarrow> True))))"

definition analyzeSingleChunk ::
  "platform \<Rightarrow> bool \<Rightarrow> (string \<Rightarrow> error + json) \<Rightarrow> string \<Rightarrow> error + analysis" where
  "analyzeSingleChunk P useLocalModel respond pdfText =
     (case respond pdfText of
        Inl e \<Rightarrow> Inl e
      | Inr data \<Rightarrow>
          (case hasChoices data of
             Inl e \<Rightarrow> Inl e
           | Inr ok \<Rightarrow>
               if \<not> ok then Inl NoResponse
               else parseStage P useLocalModel (normalizeContent P data)))"

text \<open>
  The loop of \<open>analyzeMultipleChunks\<close>: a chunk whose analysis throws is logged and
  skipped, the result of any other chunk is pushed.
\<close>

definition chunkResultsOf ::
  "platform \<Rightarrow> bool \<Rightarrow> (string \<Rightarrow> error + json) \<Rightarrow> string list \<Rightarrow> analysis list" where
  "chunkResultsOf P useLocalModel respond chunks =
     concat (map (\<lambda>chunk.
       (case analyzeSingleChunk P useLocalModel respond chunk of
          Inl e \<Rightarrow> []
        | Inr chunkResult \<Rightarrow> [chunkResult])) chunks)"

definition analyzeMultipleChunks ::
  "platform \<Rightarrow> bool \<Rightarrow> (string \<Rightarrow> error + json) \<Rightarrow> string \<Rightarrow> error + analysis" where
  "analyzeMultipleChunks P useLocalModel respond pdfText =
     combineChunkResults P
       (chunkResultsOf P useLocalModel respond (splitTextIntoChunks pdfText 25000))"

definition analyzeSOC1Report ::
  "platform \<Rightarrow> bool \<Rightarrow> (string \<Rightarrow> error + json) \<Rightarrow> string \<Rightarrow> error + analysis" where
  "analyzeSOC1Report P useLocalModel respond pdfText =
     (let estimatedTokens = (length pdfText + 3) div 4;
          maxTokensPerChunk = 25000
      in if estimatedTokens \<le> maxTokensPerChunk
         then analyzeSingleChunk P useLocalModel respond pdfText
         else analyzeMultipleChunks P useLocalModel respond pdfText)"

subsection \<open>Sample responses\<close>

text \<open>
  A text in double quotes, and the response \<open>{"controlFailures":[null]}\<close>: well-formed
  JSON whose list of control failures holds a \<open>null\<close>.
\<close>

definition quoted :: "string \<Rightarrow> string" where
  "quoted s = [CHR 0x22] @ s @ [CHR 0x22]"

definition nullElementResponse :: string where
  "nullElementResponse = ''{'' @ quoted ''controlFailures'' @ '':[null]}''"


text \<open>
  A well-formed result object: an object whose category lists hold objects, the provider
  and reason of a carve-out being strings where present.
\<close>

definition isObject :: "json \<Rightarrow> bool" where
  "isObject v = (case v of JObj kvs \<Rightarrow> True | _ \<Rightarrow> False)"

definition isStringOrAbsent :: "json option \<Rightarrow> bool" where
  "isStringOrAbsent v = (case v of None \<Rightarrow> True | Some (JStr s) \<Rightarrow> True | _ \<Rightarrow> False)"

definition resultRecord :: "json \<Rightarrow> bool" where
  "resultRecord v =
     (isObject v \<and>
      list_all isObject (arrayField v ''controlFailures'') \<and>
      list_all isObject (arrayField v ''exclusions'') \<and>
      list_all (\<lambda>x. isObject x \<and> isStringOrAbsent (field x ''provider'') \<and>
                    isStringOrAbsent (field x ''reason''))
        (arrayField v ''carveOuts''))"

text \<open>A result object and its serialisation.\<close>

definition sampleRecord :: json where
  "sampleRecord = JObj
     [(''executiveSummary'', JObj
         [(''reportPeriod'', JStr ''2023''), (''auditor'', JStr ''Audit LLP'')]),
      (''controlFailures'', JArr
         [JObj [(''id'', JStr ''CO-1''), (''effectiveness'', JStr ''ineffective''),
                (''pageNumbers'', JArr [JNum 3, JNum 4])]]),
      (''exclusions'', JArr [JObj [(''id'', JStr ''EX-1''), (''reason'', JStr ''out of scope'')]]),
      (''carveOuts'', JArr [JObj [(''id'', JStr ''CV-1''), (''provider'', JStr ''Cloud Inc'')]])]"

definition sampleText :: string where
  "sampleText = renderJSON [] sampleRecord"


text \<open>
  Two model endpoints: one that answers every request with the sample record as message
  content, and one that is down.
\<close>

definition respondSample :: "string \<Rightarrow> error + json" where
  "respondSample pdfText = Inr (JObj
     [(''choices'', JArr [JObj [(''message'', JObj
         [(''role'', JStr ''assistant''), (''content'', JStr sampleText)])]])])"

definition respondDown :: "string \<Rightarrow> error + json" where
  "respondDown pdfText = Inl TransportError"


text \<open>
  A response whose message has no text content and carries three tool calls, all at the
  same nesting level.
\<close>

definition toolCallEnvelope :: json where
  "toolCallEnvelope = JObj
     [(''choices'', JArr [JObj [(''message'', JObj
         [(''role'', JStr ''assistant''),
          (''tool_calls'', JArr
             [JObj [(''id'', JStr ''1'')], JObj [(''id'', JStr ''2'')],
              JObj [(''id'', JStr ''3'')]])])]])]"


subsection \<open>Chunks in the words of the specification\<close>









section \<open>Properties of the table reconstruction\<close>

subsection \<open>The row test\<close>













subsection \<open>Cell addresses of a materialised table\<close>


lemma enumerate_cells_addr:
  "map cellAddress (map (\<lambda>(colIndex, item). cellOf r colIndex item) (enumerate n row))
     = map (Pair r) [n..<n + length row]"
proof (induction row arbitrary: n)
  case Nil
  then show ?case by simp
next
  case (Cons a row)
  have "[n..<n + length (a # row)] = n # [Suc n..<Suc n + length row]"
    by (subst upt_rec) simp
  with Cons [of "Suc n"] show ?case
    by (simp add: cellAddress_def cellOf_def)
qed

lemma rowCells_addr: "map cellAddress (rowCells r row) = map (Pair r) [0..<length row]"
  using enumerate_cells_addr [of r 0 row] by (simp add: rowCells_def)

lemma cellsFrom_Cons: "cellsFrom n (row # rows) = rowCells n row @ cellsFrom (Suc n) rows"
  by (simp add: cellsFrom_def)

lemma cellsFrom_rows:
  "c \<in> set (cellsFrom n rows) \<Longrightarrow>
     n \<le> cell_row c \<and> cell_row c < n + length rows \<and>
     cell_col c < length (rows ! (cell_row c - n))"
proof (induction rows arbitrary: n)
  case Nil
  then show ?case by (simp add: cellsFrom_def)
next
  case (Cons row rows)
  from Cons.prems consider "c \<in> set (rowCells n row)" | "c \<in> set (cellsFrom (Suc n) rows)"
    by (auto simp: cellsFrom_Cons)
  then show ?case
  proof cases
    case 1
    then have "cellAddress c \<in> set (map cellAddress (rowCells n row))"
      by simp
    then have "cell_row c = n \<and> cell_col c < length row"
      by (auto simp: rowCells_addr cellAddress_def)
    then show ?thesis by simp
  next
    case 2
    from Cons.IH [OF 2] have "Suc n \<le> cell_row c" and "cell_row c < Suc n + length rows"
      and "cell_col c < length (rows ! (cell_row c - Suc n))"
      by simp_all
    moreover from \<open>Suc n \<le> cell_row c\<close> have "cell_row c - n = Suc (cell_row c - Suc n)"
      by simp
    ultimately show ?thesis by simp
  qed
qed

lemma cellsFrom_distinct: "distinct (map cellAddress (cellsFrom n rows))"
proof (induction rows arbitrary: n)
  case Nil
  then show ?case by (simp add: cellsFrom_def)
next
  case (Cons row rows)
  have first: "distinct (map cellAddress (rowCells n row))"
    by (simp add: rowCells_addr distinct_map inj_on_def)
  have one: "fst a = n" if "a \<in> set (map cellAddress (rowCells n row))" for a
    using that unfolding rowCells_addr by auto
  have two: "Suc n \<le> fst a" if "a \<in> set (map cellAddress (cellsFrom (Suc n) rows))" for a
  proof -
    from that obtain c where c: "c \<in> set (cellsFrom (Suc n) rows)" and a: "a = cellAddress c"
      by auto
    from cellsFrom_rows [OF c] show ?thesis
      by (simp add: a cellAddress_def)
  qed
  have "set (map cellAddress (rowCells n row))
      \<inter> set (map cellAddress (cellsFrom (Suc n) rows)) = {}"
  proof (rule ccontr)
    assume "\<not> ?thesis"
    then obtain a where "a \<in> set (map cellAddress (rowCells n row))"
      and "a \<in> set (map cellAddress (cellsFrom (Suc n) rows))"
      by blast
    with one two have "fst a = n" and "Suc n \<le> fst a"
      by blast+
    then show False by simp
  qed
  with first Cons.IH [of "Suc n"] show ?case
    by (simp add: cellsFrom_Cons)
qed

lemma maxCols_fold:
  "fold (\<lambda>row m. max m (length row)) rows a = Max (insert a (length ` set rows))"
proof (induction rows arbitrary: a)
  case Nil
  then show ?case by simp
next
  case (Cons row rows)
  have "Max (insert (max a (length row)) (length ` set rows))
      = Max (insert a (insert (length row) (length ` set rows)))"
    by (cases "rows = []") (simp_all add: max.assoc)
  with Cons [of "max a (length row)"] show ?case by simp
qed

lemma createTable_fields:
  assumes "createTableFromCandidate cand pageNumber index = Some t"
  shows "tbl_cells t = cellsFrom 0 (cand_rows cand)"
    and "tbl_rows t = length (cand_rows cand)"
    and "tbl_columns t = Max (insert 0 (length ` set (cand_rows cand)))"
    and "cand_rows cand \<noteq> []"
  using assms
  by (auto simp: createTableFromCandidate_def Let_def cellsFrom_def maxCols_fold
      split: if_splits)

text \<open>
  C8. In every table that \<open>createTableFromCandidate\<close> produces, the cell addresses
  (row, col) are pairwise distinct, every cell has \<open>row < rows\<close> and \<open>col < columns\<close>
  (both are natural numbers, so at least 0), and \<open>columns\<close> is the length of the longest
  member row.
\<close>

theorem createTable_cells_addressed:
  assumes "createTableFromCandidate cand pageNumber index = Some t"
  shows "distinct (map cellAddress (tbl_cells t)) \<and>
         (\<forall>c \<in> set (tbl_cells t). cell_row c < tbl_rows t \<and> cell_col c < tbl_columns t) \<and>
         tbl_columns t = Max (length ` set (cand_rows cand))"
proof -
  note f = createTable_fields [OF assms]
  have cols: "tbl_columns t = Max (length ` set (cand_rows cand))"
    using f(3) f(4) by simp
  have "cell_row c < tbl_rows t \<and> cell_col c < tbl_columns t" if "c \<in> set (tbl_cells t)" for c
  proof -
    from that have c: "c \<in> set (cellsFrom 0 (cand_rows cand))"
      by (simp add: f(1))
    from cellsFrom_rows [OF c] have r: "cell_row c < length (cand_rows cand)"
      and k: "cell_col c < length (cand_rows cand ! cell_row c)"
      by simp_all
    from r have "length (cand_rows cand ! cell_row c) \<in> length ` set (cand_rows cand)"
      by simp
    then have "length (cand_rows cand ! cell_row c) \<le> Max (length ` set (cand_rows cand))"
      by simp
    with k have "cell_col c < Max (length ` set (cand_rows cand))"
      by (rule less_le_trans)
    with r show ?thesis
      unfolding cols f(2) by simp
  qed
  then show ?thesis
    using cols by (simp add: f(1) cellsFrom_distinct)
qed

theorem createTable_cells_addressed_witness:
  "createTableFromCandidate sampleCandidate 1 0 \<noteq> None \<and>
   distinct (map cellAddress (tbl_cells (the (createTableFromCandidate sampleCandidate 1 0)))) \<and>
   tbl_rows (the (createTableFromCandidate sampleCandidate 1 0)) = 3 \<and>
   tbl_columns (the (createTableFromCandidate sampleCandidate 1 0)) = 4 \<and>
   length (tbl_cells (the (createTableFromCandidate sampleCandidate 1 0))) = 12"
proof -
  have ev: "createTableFromCandidate sampleCandidate 1 0 \<noteq> None \<and>
   tbl_rows (the (createTableFromCandidate sampleCandidate 1 0)) = 3 \<and>
   tbl_columns (the (createTableFromCandidate sampleCandidate 1 0)) = 4 \<and>
   length (tbl_cells (the (createTableFromCandidate sampleCandidate 1 0))) = 12"
    by (simp add: sampleCandidate_def createTableFromCandidate_def gridRow_def rowCells_def
        Let_def)
  then obtain t where t: "createTableFromCandidate sampleCandidate 1 0 = Some t"
    by blast
  from createTable_cells_addressed [OF t] have "distinct (map cellAddress (tbl_cells t))"
    by blast
  with ev t show ?thesis
    by simp
qed

subsection \<open>Candidate detection\<close>


lemma extendRun_eq:
  "extendRun rows tableRows j = (tableRows @ runFrom rows j, j + length (runFrom rows j))"
proof (induction rows tableRows j rule: extendRun.induct)
  case (1 rows tableRows j)
  show ?case
  proof (cases "j < length rows \<and> isTableRow (rows ! j)")
    case True
    then have "drop j rows = rows ! j # drop (j + 1) rows"
      by (simp add: Cons_nth_drop_Suc)
    with True have "runFrom rows j = rows ! j # runFrom rows (j + 1)"
      by (simp add: runFrom_def)
    with True 1 show ?thesis
      by (subst extendRun.simps) simp
  next
    case False
    then have "runFrom rows j = []"
      by (cases "j < length rows") (simp_all add: runFrom_def Cons_nth_drop_Suc [symmetric])
    with False show ?thesis
      by (subst extendRun.simps) auto
  qed
qed

lemma runFrom_Cons:
  "i < length rows \<Longrightarrow> isTableRow (rows ! i) \<Longrightarrow>
     runFrom rows i = rows ! i # runFrom rows (i + 1)"
  by (simp add: runFrom_def Cons_nth_drop_Suc [symmetric])

lemma runFrom_length: "length (runFrom rows i) \<le> length rows - i"
  using length_takeWhile_le [of isTableRow "drop i rows"] by (simp add: runFrom_def)

lemma runFrom_take: "take (length (runFrom rows i)) (drop i rows) = runFrom rows i"
  unfolding runFrom_def by (simp add: takeWhile_eq_take [symmetric])

lemma runFrom_all: "list_all isTableRow (runFrom rows i)"
  unfolding runFrom_def list_all_iff by (auto dest: set_takeWhileD)

lemma runFrom_nth:
  assumes "k < length (runFrom rows i)"
  shows "isTableRow (rows ! (i + k))"
proof -
  have le: "length (runFrom rows i) \<le> length (drop i rows)"
    unfolding runFrom_def by (rule length_takeWhile_le)
  have "runFrom rows i ! k \<in> set (runFrom rows i)"
    using assms by simp
  then have "isTableRow (runFrom rows i ! k)"
    unfolding runFrom_def by (auto dest: set_takeWhileD)
  moreover have "runFrom rows i ! k = drop i rows ! k"
    using assms unfolding runFrom_def by (simp add: takeWhile_nth)
  moreover have "drop i rows ! k = rows ! (i + k)"
    using assms le by simp
  ultimately show ?thesis by simp
qed

lemma runFrom_stop:
  assumes "i + length (runFrom rows i) < length rows"
  shows "\<not> isTableRow (rows ! (i + length (runFrom rows i)))"
proof -
  have "length (takeWhile isTableRow (drop i rows)) < length (drop i rows)"
    using assms by (simp add: runFrom_def)
  then have "\<not> isTableRow (drop i rows ! length (takeWhile isTableRow (drop i rows)))"
    by (rule nth_length_takeWhile)
  moreover have "drop i rows ! length (runFrom rows i) = rows ! (i + length (runFrom rows i))"
    using assms by simp
  ultimately show ?thesis by (simp add: runFrom_def)
qed

lemma run_end_unique:
  assumes "maximalRun rows i e"
  shows "e + 1 = i + length (runFrom rows i)"
proof -
  from assms have ie: "i \<le> e" and el: "e < length rows"
    and allq: "list_all isTableRow (take (e + 1 - i) (drop i rows))"
    and stop: "e + 1 = length rows \<or> \<not> isTableRow (rows ! (e + 1))"
    by (simp_all add: maximalRun_def)
  let ?n = "length (runFrom rows i)"
  have "\<not> e + 1 < i + ?n"
  proof
    assume "e + 1 < i + ?n"
    then have "e + 1 - i < ?n" using ie by simp
    then have "isTableRow (rows ! (i + (e + 1 - i)))" by (rule runFrom_nth)
    moreover have "e + 1 < length rows"
      using \<open>e + 1 < i + ?n\<close> runFrom_length [of rows i] ie by arith
    ultimately show False using stop ie by simp
  qed
  moreover have "\<not> i + ?n < e + 1"
  proof
    assume less: "i + ?n < e + 1"
    then have "i + ?n < length rows" using el by simp
    then have "\<not> isTableRow (rows ! (i + ?n))" by (rule runFrom_stop)
    moreover have "?n < e + 1 - i" using less by simp
    then have "take (e + 1 - i) (drop i rows) ! ?n \<in> set (take (e + 1 - i) (drop i rows))"
      using el ie by (intro nth_mem) simp
    then have "isTableRow (take (e + 1 - i) (drop i rows) ! ?n)"
      using allq by (simp add: list_all_iff)
    moreover have "take (e + 1 - i) (drop i rows) ! ?n = rows ! (i + ?n)"
      using \<open>?n < e + 1 - i\<close> \<open>i + ?n < length rows\<close> by simp
    ultimately show False by simp
  qed
  ultimately show ?thesis by simp
qed

lemma detectLoop_stop: "\<not> i + 1 < length rows \<Longrightarrow> detectLoop rows i cs = cs"
  by (subst detectLoop.simps) auto

lemma detectLoop_skip:
  "i + 1 < length rows \<Longrightarrow> \<not> (isTableRow (rows ! i) \<and> isTableRow (rows ! (i + 1))) \<Longrightarrow>
     detectLoop rows i cs = detectLoop rows (i + 1) cs"
  by (subst detectLoop.simps) auto

lemma detectLoop_run:
  assumes "i + 1 < length rows" and "isTableRow (rows ! i)" and "isTableRow (rows ! (i + 1))"
  shows "detectLoop rows i cs =
     detectLoop rows (i + length (runFrom rows i))
       (if 3 \<le> length (runFrom rows i) then cs @ [runCandidate rows i] else cs)"
proof -
  have r: "runFrom rows i = rows ! i # runFrom rows (i + 1)"
    using assms by (simp add: runFrom_Cons)
  show ?thesis
    using assms
    by (subst detectLoop.simps) (simp add: extendRun_eq r runCandidate_def MIN_TABLE_ROWS_def)
qed

lemma run_at_least_two:
  assumes "i + 1 < length rows" and "isTableRow (rows ! i)" and "isTableRow (rows ! (i + 1))"
  shows "2 \<le> length (runFrom rows i)"
proof -
  have "runFrom rows i = rows ! i # rows ! (i + 1) # runFrom rows (i + 1 + 1)"
    using assms by (simp add: runFrom_Cons)
  then show ?thesis by simp
qed

lemma detectLoop_acc: "detectLoop rows i cs = cs @ detectLoop rows i []"
proof (induction "length rows - i" arbitrary: i cs rule: less_induct)
  case less
  show ?case
  proof (cases "i + 1 < length rows")
    case False
    then show ?thesis by (simp add: detectLoop_stop)
  next
    case inb: True
    show ?thesis
    proof (cases "isTableRow (rows ! i) \<and> isTableRow (rows ! (i + 1))")
      case False
      have "length rows - (i + 1) < length rows - i" using inb by simp
      from less [OF this] have "detectLoop rows (i + 1) cs = cs @ detectLoop rows (i + 1) []" .
      with inb False show ?thesis by (simp add: detectLoop_skip)
    next
      case True
      let ?j = "i + length (runFrom rows i)"
      have "2 \<le> length (runFrom rows i)"
        using inb True by (simp add: run_at_least_two)
      then have "length rows - ?j < length rows - i" using inb by simp
      note ih = less [OF this]
      show ?thesis
        using inb True ih [of "cs @ [runCandidate rows i]"] ih [of cs] ih [of "[runCandidate rows i]"]
        by (simp add: detectLoop_run)
    qed
  qed
qed

lemma detectFrom_stop: "\<not> i + 1 < length rows \<Longrightarrow> detectFrom rows i = []"
  by (simp add: detectFrom_def detectLoop_stop)

lemma detectFrom_skip:
  "i + 1 < length rows \<Longrightarrow> \<not> (isTableRow (rows ! i) \<and> isTableRow (rows ! (i + 1))) \<Longrightarrow>
     detectFrom rows i = detectFrom rows (i + 1)"
  by (simp add: detectFrom_def detectLoop_skip)

lemma detectFrom_run:
  assumes "i + 1 < length rows" and "isTableRow (rows ! i)" and "isTableRow (rows ! (i + 1))"
  shows "detectFrom rows i =
     (if 3 \<le> length (runFrom rows i) then [runCandidate rows i] else [])
       @ detectFrom rows (i + length (runFrom rows i))"
  unfolding detectFrom_def detectLoop_run [OF assms]
  by (subst detectLoop_acc) simp

lemma runCandidate_ok:
  assumes "i < length rows" and "isTableRow (rows ! i)" and "scanStart rows i"
    and "3 \<le> length (runFrom rows i)"
  shows "candidateOfRun rows (runCandidate rows i)"
proof -
  let ?n = "length (runFrom rows i)"
  have n: "i + ?n \<le> length rows"
    using runFrom_length [of rows i] assms(1) by simp
  have left: "i = 0 \<or> \<not> isTableRow (rows ! (i - 1))"
    using assms by (auto simp: scanStart_def)
  have eq: "i + ?n - 1 + 1 = i + ?n"
    using assms(4) by simp
  have right: "i + ?n = length rows \<or> \<not> isTableRow (rows ! (i + ?n))"
  proof (cases "i + ?n < length rows")
    case True
    then show ?thesis using runFrom_stop [of i rows] by simp
  next
    case False
    with n show ?thesis by simp
  qed
  have tk: "take (i + ?n - i) (drop i rows) = runFrom rows i"
    using runFrom_take [of rows i] by simp
  have "i \<le> i + ?n - 1" and "i + ?n - 1 < length rows"
    using assms(4) n by simp_all
  then show ?thesis
    unfolding candidateOfRun_def maximalRun_def runCandidate_def
    using assms(4) left right tk runFrom_all [of rows i]
    by (simp only: candidate.simps eq)
qed

lemma scanStart_after_run: "scanStart rows (i + length (runFrom rows i))"
proof (cases "i + length (runFrom rows i) < length rows")
  case True
  then show ?thesis using runFrom_stop [of i rows] by (simp add: scanStart_def)
next
  case False
  then show ?thesis by (simp add: scanStart_def)
qed

lemma scanStart_after_skip:
  "\<not> (isTableRow (rows ! i) \<and> isTableRow (rows ! (i + 1))) \<Longrightarrow> scanStart rows (i + 1)"
  by (auto simp: scanStart_def)

lemma detectFrom_sound:
  "scanStart rows i \<Longrightarrow> c \<in> set (detectFrom rows i) \<Longrightarrow>
     candidateOfRun rows c \<and> i \<le> startIndex c"
proof (induction "length rows - i" arbitrary: i rule: less_induct)
  case less
  show ?case
  proof (cases "i + 1 < length rows")
    case False
    with less.prems show ?thesis by (simp add: detectFrom_stop)
  next
    case inb: True
    show ?thesis
    proof (cases "isTableRow (rows ! i) \<and> isTableRow (rows ! (i + 1))")
      case False
      have m: "length rows - (i + 1) < length rows - i" using inb by simp
      have "c \<in> set (detectFrom rows (i + 1))"
        using less.prems(2) inb False by (simp add: detectFrom_skip)
      from less.hyps [OF m scanStart_after_skip [OF False] this] show ?thesis by simp
    next
      case True
      let ?n = "length (runFrom rows i)"
      have two: "2 \<le> ?n" using inb True by (simp add: run_at_least_two)
      then have m: "length rows - (i + ?n) < length rows - i" using inb by simp
      from less.prems(2) inb True
      consider "3 \<le> ?n" and "c = runCandidate rows i" | "c \<in> set (detectFrom rows (i + ?n))"
        by (auto simp: detectFrom_run split: if_splits)
      then show ?thesis
      proof cases
        case 1
        have "candidateOfRun rows (runCandidate rows i)"
          using inb True less.prems(1) 1(1) by (intro runCandidate_ok) simp_all
        with 1 show ?thesis by (simp add: runCandidate_def)
      next
        case 2
        from less.hyps [OF m scanStart_after_run 2] show ?thesis by simp
      qed
    qed
  qed
qed

lemma detectFrom_ordered: "scanStart rows i \<Longrightarrow> disjointInOrder (detectFrom rows i)"
proof (induction "length rows - i" arbitrary: i rule: less_induct)
  case less
  show ?case
  proof (cases "i + 1 < length rows")
    case False
    then show ?thesis by (simp add: detectFrom_stop disjointInOrder_def)
  next
    case inb: True
    show ?thesis
    proof (cases "isTableRow (rows ! i) \<and> isTableRow (rows ! (i + 1))")
      case False
      have m: "length rows - (i + 1) < length rows - i" using inb by simp
      from less.hyps [OF m scanStart_after_skip [OF False]] inb False show ?thesis
        by (simp add: detectFrom_skip)
    next
      case True
      let ?n = "length (runFrom rows i)"
      have two: "2 \<le> ?n" using inb True by (simp add: run_at_least_two)
      then have m: "length rows - (i + ?n) < length rows - i" using inb by simp
      have rest: "disjointInOrder (detectFrom rows (i + ?n))"
        using less.hyps [OF m scanStart_after_run] .
      have later: "endIndex (runCandidate rows i) < startIndex d"
        if "d \<in> set (detectFrom rows (i + ?n))" for d
      proof -
        from detectFrom_sound [OF scanStart_after_run that] have "i + ?n \<le> startIndex d"
          by simp
        with two show ?thesis by (simp add: runCandidate_def)
      qed
      show ?thesis
        using inb True rest later
        by (simp add: detectFrom_run disjointInOrder_def)
    qed
  qed
qed

lemma detectFrom_complete:
  "maximalRun rows s e \<Longrightarrow> i \<le> s \<Longrightarrow> 3 \<le> e + 1 - s \<Longrightarrow>
     \<exists>c \<in> set (detectFrom rows i). startIndex c = s \<and> endIndex c = e"
proof (induction "length rows - i" arbitrary: i rule: less_induct)
  case less
  from less.prems(1) have se: "s \<le> e" and el: "e < length rows"
    and left: "s = 0 \<or> \<not> isTableRow (rows ! (s - 1))"
    by (simp_all add: maximalRun_def)
  have ends: "e + 1 = s + length (runFrom rows s)"
    using less.prems(1) by (rule run_end_unique)
  with less.prems(3) have three: "3 \<le> length (runFrom rows s)" by simp
  from three have l0: "0 < length (runFrom rows s)" and l1: "1 < length (runFrom rows s)"
    by linarith+
  have q0: "isTableRow (rows ! (s + 0))"
    using l0 by (rule runFrom_nth)
  have q1: "isTableRow (rows ! (s + 1))"
    using l1 by (rule runFrom_nth)
  have inb: "i + 1 < length rows"
    using less.prems(2,3) el by simp
  show ?case
  proof (cases "isTableRow (rows ! i) \<and> isTableRow (rows ! (i + 1))")
    case False
    with q0 q1 have "i \<noteq> s" by auto
    with less.prems(2) have nxt: "i + 1 \<le> s" by simp
    have m: "length rows - (i + 1) < length rows - i" using inb by simp
    from less.hyps [OF m less.prems(1) nxt less.prems(3)] inb False show ?thesis
      by (simp add: detectFrom_skip)
  next
    case True
    let ?n = "length (runFrom rows i)"
    have two: "2 \<le> ?n" using inb True by (simp add: run_at_least_two)
    then have m: "length rows - (i + ?n) < length rows - i" using inb by simp
    show ?thesis
    proof (cases "i = s")
      case True
      with three ends have "3 \<le> ?n" and "endIndex (runCandidate rows i) = e"
        by (simp_all add: runCandidate_def)
      with \<open>i = s\<close> inb \<open>isTableRow (rows ! i) \<and> isTableRow (rows ! (i + 1))\<close> show ?thesis
        by (simp add: detectFrom_run runCandidate_def)
    next
      case False
      with less.prems(2) have "i < s" by simp
      have "i + ?n \<le> s"
      proof (rule ccontr)
        assume "\<not> i + ?n \<le> s"
        with \<open>i < s\<close> have "s - 1 - i < ?n" by simp
        then have "isTableRow (rows ! (i + (s - 1 - i)))" by (rule runFrom_nth)
        with \<open>i < s\<close> left show False by simp
      qed
      from less.hyps [OF m less.prems(1) this less.prems(3)] inb True show ?thesis
        by (auto simp: detectFrom_run)
    qed
  qed
qed

lemma tablesOfCandidates_mem:
  "t \<in> set (tablesOfCandidates cs pageNumber) \<longleftrightarrow>
     (\<exists>k < length cs. createTableFromCandidate (cs ! k) pageNumber k = Some t \<and>
        3 \<le> tbl_rows t \<and> 3 \<le> tbl_columns t)"
proof
  assume "t \<in> set (tablesOfCandidates cs pageNumber)"
  then show "\<exists>k < length cs. createTableFromCandidate (cs ! k) pageNumber k = Some t \<and>
        3 \<le> tbl_rows t \<and> 3 \<le> tbl_columns t"
    by (auto simp: tablesOfCandidates_def in_set_enumerate_eq MIN_TABLE_ROWS_def
        MIN_TABLE_COLS_def split: option.splits if_splits)
next
  assume "\<exists>k < length cs. createTableFromCandidate (cs ! k) pageNumber k = Some t \<and>
        3 \<le> tbl_rows t \<and> 3 \<le> tbl_columns t"
  then obtain k where k: "k < length cs"
    and t: "createTableFromCandidate (cs ! k) pageNumber k = Some t"
    and sz: "3 \<le> tbl_rows t" "3 \<le> tbl_columns t"
    by blast
  from k have "(k, cs ! k) \<in> set (enumerate 0 cs)"
    by (simp add: in_set_enumerate_eq)
  then show "t \<in> set (tablesOfCandidates cs pageNumber)"
    unfolding tablesOfCandidates_def set_concat set_map
    using t sz by (force simp: MIN_TABLE_ROWS_def MIN_TABLE_COLS_def)
qed

text \<open>
  C6. Scanning the rows top to bottom, the candidates of \<open>detectTableStructures\<close> are
  exactly the maximal runs of consecutive qualifying rows of length at least
  \<open>MIN_ROWS = 3\<close>: every candidate is such a run with exactly its rows (opened at two
  consecutive qualifying rows and extended while rows qualify), every such run is a
  candidate, and the candidates are listed in order without overlap (each ends before the
  next starts). A materialised table is kept exactly when it has at least 3 rows and at
  least 3 columns; any other is dropped.
\<close>

theorem detectTableStructures_runs:
  "(\<forall>c \<in> set (detectTableStructures rows). candidateOfRun rows c) \<and>
   disjointInOrder (detectTableStructures rows) \<and>
   (\<forall>s e. maximalRun rows s e \<and> 3 \<le> e + 1 - s \<longrightarrow>
      (\<exists>c \<in> set (detectTableStructures rows). startIndex c = s \<and> endIndex c = e)) \<and>
   (\<forall>t. t \<in> set (tablesOfCandidates cs pageNumber) \<longleftrightarrow>
      (\<exists>k < length cs. createTableFromCandidate (cs ! k) pageNumber k = Some t \<and>
         3 \<le> tbl_rows t \<and> 3 \<le> tbl_columns t))"
proof (intro conjI allI ballI impI)
  have start: "scanStart rows 0" by (simp add: scanStart_def)
  have d: "detectTableStructures rows = detectFrom rows 0"
    by (simp add: detectTableStructures_def detectFrom_def)
  show "disjointInOrder (detectTableStructures rows)"
    unfolding d using start by (rule detectFrom_ordered)
  show "candidateOfRun rows c" if "c \<in> set (detectTableStructures rows)" for c
    using detectFrom_sound [OF start] that unfolding d by blast
  show "\<exists>c \<in> set (detectTableStructures rows). startIndex c = s \<and> endIndex c = e"
    if "maximalRun rows s e \<and> 3 \<le> e + 1 - s" for s e
    unfolding d using that by (intro detectFrom_complete) simp_all
  show "t \<in> set (tablesOfCandidates cs pageNumber) \<longleftrightarrow>
      (\<exists>k < length cs. createTableFromCandidate (cs ! k) pageNumber k = Some t \<and>
         3 \<le> tbl_rows t \<and> 3 \<le> tbl_columns t)" for t
    by (rule tablesOfCandidates_mem)
qed


theorem detectTableStructures_runs_witness:
  "maximalRun samplePage 0 3 \<and> 3 \<le> (3::nat) + 1 - 0 \<and>
   (\<exists>c \<in> set (detectTableStructures samplePage).
       candidateOfRun samplePage c \<and> startIndex c = 0 \<and> endIndex c = 3) \<and>
   disjointInOrder (detectTableStructures samplePage) \<and>
   length (detectTableStructures samplePage) = 1 \<and>
   (\<exists>t \<in> set (tablesOfCandidates (detectTableStructures samplePage) 1).
       tbl_rows t = 4 \<and> tbl_columns t = 4)"
proof -
  note runs = detectTableStructures_runs [of samplePage "detectTableStructures samplePage" 1]
  have run: "maximalRun samplePage 0 3 \<and> 3 \<le> (3::nat) + 1 - 0"
    by code_simp
  with runs obtain c where c: "c \<in> set (detectTableStructures samplePage)"
    "startIndex c = 0" "endIndex c = 3"
    by blast
  with runs have ok: "candidateOfRun samplePage c"
    by blast
  have len: "length (detectTableStructures samplePage) = 1"
    by code_simp
  have "map (\<lambda>t. (tbl_rows t, tbl_columns t))
      (tablesOfCandidates (detectTableStructures samplePage) 1) = [(4, 4)]"
    by code_simp
  then have tbl: "\<exists>t \<in> set (tablesOfCandidates (detectTableStructures samplePage) 1).
       tbl_rows t = 4 \<and> tbl_columns t = 4"
    by auto
  from runs have "disjointInOrder (detectTableStructures samplePage)"
    by blast
  with run c ok len tbl show ?thesis
    by blast
qed


section \<open>Properties of the merge of chunk results\<close>


lemma sameValueZero_eq: "sameValueZero a b \<Longrightarrow> a = b"
  by (induction a b rule: sameValueZero.induct) auto

lemma sameValueZero_str [simp]: "sameValueZero a (Some (JStr s)) = (a = Some (JStr s))"
  by (induction a "Some (JStr s)" rule: sameValueZero.induct) auto

lemma removeDuplicatesFrom_firstOcc:
  assumes "JNull \<notin> set xs"
    and "\<And>v. (\<exists>s \<in> set seen. sameValueZero s v) \<longleftrightarrow> (\<exists>b \<in> set before. sameValueZero (idOf b) v)"
  shows "removeDuplicatesFrom seen xs ''id'' = Inr (firstOcc before xs)"
  using assms
proof (induction xs arbitrary: seen before)
  case Nil
  then show ?case by simp
next
  case (Cons x xs)
  from Cons.prems(1) have x: "x \<noteq> JNull" and xs: "JNull \<notin> set xs" by auto
  show ?case
  proof (cases "\<exists>s \<in> set seen. sameValueZero s (idOf x)")
    case True
    then obtain s where s: "s \<in> set seen" "sameValueZero s (idOf x)" by blast
    have "(\<exists>s \<in> set seen. sameValueZero s v) \<longleftrightarrow>
          (\<exists>b \<in> set (before @ [x]). sameValueZero (idOf b) v)" for v
    proof
      assume "\<exists>s \<in> set seen. sameValueZero s v"
      then show "\<exists>b \<in> set (before @ [x]). sameValueZero (idOf b) v"
        using Cons.prems(2) [of v] by auto
    next
      assume "\<exists>b \<in> set (before @ [x]). sameValueZero (idOf b) v"
      then consider "\<exists>b \<in> set before. sameValueZero (idOf b) v" | "sameValueZero (idOf x) v"
        by auto
      then show "\<exists>s \<in> set seen. sameValueZero s v"
      proof cases
        case 1
        then show ?thesis using Cons.prems(2) [of v] by simp
      next
        case 2
        from s(2) have "s = idOf x" by (rule sameValueZero_eq)
        with 2 s(1) show ?thesis by blast
      qed
    qed
    from Cons.IH [OF xs this] True Cons.prems(2) [of "idOf x"] x show ?thesis
      by (simp add: idOf_def)
  next
    case False
    have "(\<exists>s \<in> set (seen @ [idOf x]). sameValueZero s v) \<longleftrightarrow>
          (\<exists>b \<in> set (before @ [x]). sameValueZero (idOf b) v)" for v
      using Cons.prems(2) [of v] by auto
    from Cons.IH [OF xs this] False Cons.prems(2) [of "idOf x"] x show ?thesis
      by (simp add: idOf_def)
  qed
qed

lemma removeDuplicates_firstOccurrences:
  "JNull \<notin> set xs \<Longrightarrow> removeDuplicates xs ''id'' = Inr (firstOccurrences xs)"
  unfolding removeDuplicates_def firstOccurrences_def
  by (rule removeDuplicatesFrom_firstOcc) simp_all

lemma firstOcc_subset: "set (firstOcc before xs) \<subseteq> set xs"
  by (induction xs arbitrary: before) auto

lemma firstOcc_subseq: "subseq (firstOcc before xs) xs"
  by (induction xs arbitrary: before) auto




lemma combineStep_truthy:
  assumes "truthy (rawResult r)"
  shows "c_controlFailures (combineStep acc r)
           = c_controlFailures acc @ arrayField (rawResult r) ''controlFailures''"
    and "c_exclusions (combineStep acc r)
           = c_exclusions acc @ arrayField (rawResult r) ''exclusions''"
    and "c_carveOuts (combineStep acc r)
           = c_carveOuts acc @ arrayField (rawResult r) ''carveOuts''"
    and "c_executiveSummary (combineStep acc r)
           = (if truthy (c_executiveSummary acc) then c_executiveSummary acc
              else if truthyOpt (summaryOf r) then the (summaryOf r)
              else c_executiveSummary acc)"
  using assms by (simp_all add: combineStep_def Let_def summaryOf_def)

lemma foldl_combineStep_controlFailures:
  "\<forall>r \<in> set rs. truthy (rawResult r) \<Longrightarrow>
     c_controlFailures (foldl combineStep acc rs)
       = c_controlFailures acc @ categoryItems ''controlFailures'' rs"
  by (induction rs arbitrary: acc) (simp_all add: categoryItems_def combineStep_truthy(1))

lemma foldl_combineStep_exclusions:
  "\<forall>r \<in> set rs. truthy (rawResult r) \<Longrightarrow>
     c_exclusions (foldl combineStep acc rs)
       = c_exclusions acc @ categoryItems ''exclusions'' rs"
  by (induction rs arbitrary: acc) (simp_all add: categoryItems_def combineStep_truthy(2))

lemma foldl_combineStep_carveOuts:
  "\<forall>r \<in> set rs. truthy (rawResult r) \<Longrightarrow>
     c_carveOuts (foldl combineStep acc rs)
       = c_carveOuts acc @ categoryItems ''carveOuts'' rs"
  by (induction rs arbitrary: acc) (simp_all add: categoryItems_def combineStep_truthy(3))

lemma foldl_combineStep_kept:
  "truthy (c_executiveSummary acc) \<Longrightarrow> \<forall>r \<in> set rs. truthy (rawResult r) \<Longrightarrow>
     c_executiveSummary (foldl combineStep acc rs) = c_executiveSummary acc"
  by (induction rs arbitrary: acc) (simp_all add: combineStep_truthy(4))

lemma foldl_combineStep_summary:
  "\<not> truthy (c_executiveSummary acc) \<Longrightarrow> \<forall>r \<in> set rs. truthy (rawResult r) \<Longrightarrow>
     c_executiveSummary (foldl combineStep acc rs)
       = (case find (\<lambda>r. truthyOpt (summaryOf r)) rs of
            None \<Rightarrow> c_executiveSummary acc
          | Some r \<Rightarrow> the (summaryOf r))"
proof (induction rs arbitrary: acc)
  case Nil
  then show ?case by simp
next
  case (Cons r rs)
  from Cons.prems have r: "truthy (rawResult r)" and rs: "\<forall>r \<in> set rs. truthy (rawResult r)"
    by simp_all
  show ?case
  proof (cases "truthyOpt (summaryOf r)")
    case True
    then have "truthy (the (summaryOf r))"
      by (auto simp: truthyOpt_def split: option.splits)
    with True Cons.prems(1) r
    have "truthy (c_executiveSummary (combineStep acc r))"
      and "c_executiveSummary (combineStep acc r) = the (summaryOf r)"
      by (simp_all add: combineStep_truthy(4))
    with True rs show ?thesis
      by (simp add: foldl_combineStep_kept)
  next
    case False
    with Cons.prems(1) r
    have "\<not> truthy (c_executiveSummary (combineStep acc r))"
      and "c_executiveSummary (combineStep acc r) = c_executiveSummary acc"
      by (simp_all add: combineStep_truthy(4))
    with False Cons.IH [OF _ rs, of "combineStep acc r"] show ?thesis
      by (simp split: option.splits)
  qed
qed


lemma isl_controlFinding: "isl (controlFinding P i x) = (x = JNull)"
  by (simp add: controlFinding_def)

lemma isl_exclusionFinding: "isl (exclusionFinding P i x) = (x = JNull)"
  by (simp add: exclusionFinding_def)

lemma isl_carveOutFinding: "isl (carveOutFinding P i x) = isl (carveOutFinding P 0 x)"
  by (simp add: carveOutFinding_def split: sum.splits)

lemma carveOutFinding_null: "\<not> isl (carveOutFinding P i x) \<Longrightarrow> x \<noteq> JNull"
  by (auto simp: carveOutFinding_def)

lemma isl_forEachFinding:
  assumes "\<And>i x. isl (f i x) = isl (f 0 x)"
  shows "isl (forEachFinding f i xs) = (\<exists>x \<in> set xs. isl (f 0 x))"
proof (induction xs arbitrary: i)
  case Nil
  then show ?case by simp
next
  case (Cons x xs)
  show ?case
    using assms [of i x] Cons [of "i + 1"]
    by (auto split: sum.splits)
qed

lemma isl_categoryFindings:
  assumes "\<And>i x. isl (f i x) = isl (f 0 x)"
  shows "isl (categoryFindings f raw name) = (\<exists>x \<in> set (arrayField raw name). isl (f 0 x))"
  using isl_forEachFinding [of f 0, OF assms]
  by (auto simp: categoryFindings_def arrayField_def split: option.splits json.splits)

lemma transformSOC1Result_isl:
  "isl (transformSOC1Result P raw) =
     ((\<exists>x \<in> set (arrayField raw ''controlFailures''). x = JNull) \<or>
      (\<exists>x \<in> set (arrayField raw ''exclusions''). x = JNull) \<or>
      (\<exists>x \<in> set (arrayField raw ''carveOuts''). isl (carveOutFinding P 0 x)))"
proof -
  have "isl (controlFinding P i x) = isl (controlFinding P 0 x)" for i x
    by (simp add: isl_controlFinding)
  from isl_categoryFindings [of "controlFinding P", OF this]
  have a: "isl (categoryFindings (controlFinding P) raw ''controlFailures'')
      = (\<exists>x \<in> set (arrayField raw ''controlFailures''). x = JNull)"
    by (simp add: isl_controlFinding)
  have "isl (exclusionFinding P i x) = isl (exclusionFinding P 0 x)" for i x
    by (simp add: isl_exclusionFinding)
  from isl_categoryFindings [of "exclusionFinding P", OF this]
  have b: "isl (categoryFindings (exclusionFinding P) raw ''exclusions'')
      = (\<exists>x \<in> set (arrayField raw ''exclusions''). x = JNull)"
    by (simp add: isl_exclusionFinding)
  have c: "isl (categoryFindings (carveOutFinding P) raw ''carveOuts'')
      = (\<exists>x \<in> set (arrayField raw ''carveOuts''). isl (carveOutFinding P 0 x))"
    by (rule isl_categoryFindings) (rule isl_carveOutFinding)
  show ?thesis
    unfolding a [symmetric] b [symmetric] c [symmetric]
    by (simp add: transformSOC1Result_def split: sum.splits)
qed

lemma transformSOC1Result_rawResult:
  "transformSOC1Result P raw = Inr r \<Longrightarrow> rawResult r = raw"
  by (auto simp: transformSOC1Result_def split: sum.splits)


lemma successful_items:
  assumes "\<forall>r \<in> set rs. successfulResult P r"
  shows "JNull \<notin> set (categoryItems ''controlFailures'' rs)"
    and "JNull \<notin> set (categoryItems ''exclusions'' rs)"
    and "\<forall>x \<in> set (categoryItems ''carveOuts'' rs). \<not> isl (carveOutFinding P 0 x)"
proof -
  have ok: "\<not> isl (transformSOC1Result P (rawResult r))" if "r \<in> set rs" for r
    using assms that by (simp add: successfulResult_def)
  show "JNull \<notin> set (categoryItems ''controlFailures'' rs)"
    using ok unfolding transformSOC1Result_isl categoryItems_def by auto
  show "JNull \<notin> set (categoryItems ''exclusions'' rs)"
    using ok unfolding transformSOC1Result_isl categoryItems_def by auto
  show "\<forall>x \<in> set (categoryItems ''carveOuts'' rs). \<not> isl (carveOutFinding P 0 x)"
    using ok unfolding transformSOC1Result_isl categoryItems_def by auto
qed

lemma firstOccurrences_subset: "set (firstOccurrences xs) \<subseteq> set xs"
  by (simp add: firstOccurrences_def firstOcc_subset)


lemma combineChunkResults_raw:
  assumes "rs \<noteq> []" and "\<forall>r \<in> set rs. successfulResult P r"
  shows "\<exists>out. combineChunkResults P rs = Inr out \<and>
     rawResult out = JObj
       [(''executiveSummary'', firstSummary rs),
        (''controlFailures'', JArr (firstOccurrences (categoryItems ''controlFailures'' rs))),
        (''exclusions'', JArr (firstOccurrences (categoryItems ''exclusions'' rs))),
        (''carveOuts'', JArr (firstOccurrences (categoryItems ''carveOuts'' rs)))]"
proof -
  let ?init = "\<lparr>c_executiveSummary = JNull, c_controlFailures = [], c_exclusions = [],
               c_carveOuts = []\<rparr>"
  let ?acc = "foldl combineStep ?init rs"
  let ?cf = "categoryItems ''controlFailures'' rs"
  let ?ex = "categoryItems ''exclusions'' rs"
  let ?co = "categoryItems ''carveOuts'' rs"
  let ?merged = "JObj
       [(''executiveSummary'', firstSummary rs),
        (''controlFailures'', JArr (firstOccurrences ?cf)),
        (''exclusions'', JArr (firstOccurrences ?ex)),
        (''carveOuts'', JArr (firstOccurrences ?co))]"
  have tr: "\<forall>r \<in> set rs. truthy (rawResult r)"
    using assms(2) by (simp add: successfulResult_def)
  note items = successful_items [OF assms(2)]
  have co_null: "JNull \<notin> set ?co"
    using items(3) carveOutFinding_null by blast
  have acc: "c_controlFailures ?acc = ?cf" "c_exclusions ?acc = ?ex" "c_carveOuts ?acc = ?co"
    "c_executiveSummary ?acc = firstSummary rs"
    using tr
    by (simp_all add: foldl_combineStep_controlFailures foldl_combineStep_exclusions
        foldl_combineStep_carveOuts foldl_combineStep_summary firstSummary_def
        split: option.splits)
  have dd: "removeDuplicates ?cf ''id'' = Inr (firstOccurrences ?cf)"
    "removeDuplicates ?ex ''id'' = Inr (firstOccurrences ?ex)"
    "removeDuplicates ?co ''id'' = Inr (firstOccurrences ?co)"
    using items(1,2) co_null by (simp_all add: removeDuplicates_firstOccurrences)
  have comb: "combineChunkResults P rs = transformSOC1Result P ?merged"
    using assms(1) by (simp add: combineChunkResults_def Let_def acc dd)
  have af: "arrayField ?merged ''controlFailures'' = firstOccurrences ?cf"
    "arrayField ?merged ''exclusions'' = firstOccurrences ?ex"
    "arrayField ?merged ''carveOuts'' = firstOccurrences ?co"
    by (simp_all add: arrayField_def)
  have "\<not> isl (transformSOC1Result P ?merged)"
    unfolding transformSOC1Result_isl af
    using items co_null firstOccurrences_subset by blast
  then obtain out where out: "transformSOC1Result P ?merged = Inr out"
    by (cases "transformSOC1Result P ?merged") auto
  then have "rawResult out = ?merged"
    by (rule transformSOC1Result_rawResult)
  with comb out show ?thesis
    by simp
qed




section \<open>Properties of the parsing stage\<close>


lemma transformOrThrow_Inr:
  "transformOrThrow P v = Inr r \<longleftrightarrow> transformSOC1Result P v = Inr r"
  by (simp add: transformOrThrow_def split: sum.splits)

lemma transformOrThrow_Inl:
  "transformOrThrow P v = Inl e \<longleftrightarrow> e = ResponseNotParsed \<and> isl (transformSOC1Result P v)"
  by (auto simp: transformOrThrow_def split: sum.splits)

lemma fallback_arrays:
  "arrayField (createFallbackResult content) ''controlFailures'' =
     [JObj
        [(''id'', JStr ''fallback-control-failure-1''),
         (''description'', JStr
            (''Raw AI response could not be parsed as JSON. Response length: ''
             @ showNat (length content) @ '' characters. Check console for full response.'')),
         (''type'', JStr ''unknown''),
         (''effectiveness'', JStr ''not_tested''),
         (''exceptions'', JArr [JStr ''JSON parsing failed'']),
         (''pageNumbers'', JArr [JNum 1]),
         (''confidenceScore'', JNum (1 / 10))]]"
  "arrayField (createFallbackResult content) ''exclusions'' =
     [JObj
        [(''id'', JStr ''fallback-exclusion-1''),
         (''description'', JStr
            (''AI response parsing failed. Raw content preview: '' @ truncatedContent content)),
         (''reason'', JStr
            (''The local model may not be following the expected JSON format. ''
             @ ''Check console logs for the full response.'')),
         (''pageNumbers'', JArr [JNum 1]),
         (''confidenceScore'', JNum (1 / 10))]]"
  "arrayField (createFallbackResult content) ''carveOuts'' =
     [JObj
        [(''id'', JStr ''fallback-carveout-1''),
         (''description'', JStr ''Unable to extract carve-outs due to JSON parsing error''),
         (''provider'', JStr ''Unknown''),
         (''reason'', JStr
            ''Local model response format issue. Check console for actual response.''),
         (''pageNumbers'', JArr [JNum 1]),
         (''confidenceScore'', JNum (1 / 10))]]"
  by (simp_all add: arrayField_def createFallbackResult_def)


lemma fallback_controls:
  "\<exists>f. categoryFindings (controlFinding P) (createFallbackResult content) ''controlFailures''
          = Inr [f] \<and> f_confidence f = JNum (1 / 10)"
  by (simp add: categoryFindings_def createFallbackResult_def controlFinding_def orElse_def)

lemma fallback_exclusions:
  "\<exists>f. categoryFindings (exclusionFinding P) (createFallbackResult content) ''exclusions''
          = Inr [f] \<and> f_confidence f = JNum (1 / 10) \<and>
        f_description f = JStr
          (''AI response parsing failed. Raw content preview: '' @ truncatedContent content)"
  by (simp add: categoryFindings_def createFallbackResult_def exclusionFinding_def orElse_def)

lemma fallback_carveOuts:
  "\<exists>f. categoryFindings (carveOutFinding P) (createFallbackResult content) ''carveOuts''
          = Inr [f] \<and> f_confidence f = JNum (1 / 10)"
  by (simp add: categoryFindings_def createFallbackResult_def carveOutFinding_def orElse_def)

lemma transform_fallback:
  "\<exists>r c x v s. transformSOC1Result P (createFallbackResult content) = Inr r \<and>
     rawResult r = createFallbackResult content \<and>
     findings r = [c, x, v, s] \<and>
     f_confidence c = JNum (1 / 10) \<and> f_confidence x = JNum (1 / 10) \<and>
     f_confidence v = JNum (1 / 10) \<and>
     f_description x = JStr
       (''AI response parsing failed. Raw content preview: '' @ truncatedContent content)"
proof -
  obtain c where c: "categoryFindings (controlFinding P) (createFallbackResult content)
      ''controlFailures'' = Inr [c]" "f_confidence c = JNum (1 / 10)"
    using fallback_controls by blast
  obtain x where x: "categoryFindings (exclusionFinding P) (createFallbackResult content)
      ''exclusions'' = Inr [x]" "f_confidence x = JNum (1 / 10)"
      "f_description x = JStr
         (''AI response parsing failed. Raw content preview: '' @ truncatedContent content)"
    using fallback_exclusions by blast
  obtain v where v: "categoryFindings (carveOutFinding P) (createFallbackResult content)
      ''carveOuts'' = Inr [v]" "f_confidence v = JNum (1 / 10)"
    using fallback_carveOuts by blast
  have s: "field (createFallbackResult content) ''executiveSummary'' = Some (JObj
         [(''reportPeriod'', JStr ''Unable to extract - see raw content''),
          (''serviceOrganization'', JStr ''Unable to extract - see raw content''),
          (''auditor'', JStr ''Unable to extract - see raw content''),
          (''opinion'', JStr ''Unable to extract - see raw content'')])"
    by (simp add: createFallbackResult_def)
  show ?thesis
    unfolding transformSOC1Result_def c(1) x(1) v(1) s
    using c(2) x(2,3) v(2) by simp
qed


lemma extracted_shape:
  assumes "extractFromNaturalLanguage content = Some v"
  shows "\<exists>es cf ex co. v = JObj
     [(''executiveSummary'', es),
      (''controlFailures'', JArr (map (\<lambda>(index, m). extractedControl index m) cf)),
      (''exclusions'', JArr (map (\<lambda>(index, m). extractedExclusion index m) ex)),
      (''carveOuts'', JArr (map (\<lambda>(index, m). extractedCarveOut index m) co))]"
proof -
  from assms have "extractFromNaturalLanguage content \<noteq> None"
    by simp
  from assms [symmetric] show ?thesis
    unfolding extractFromNaturalLanguage_def Let_def
    by (auto simp only: option.inject option.distinct split: if_splits)
qed

lemma carveOutFinding_extracted: "\<not> isl (carveOutFinding P 0 (extractedCarveOut index m))"
  by (simp add: carveOutFinding_def extractedCarveOut_def orElse_def)

lemma transform_extracted:
  assumes "extractFromNaturalLanguage content = Some v"
  shows "\<not> isl (transformSOC1Result P v)" and "truthy v"
proof -
  from extracted_shape [OF assms] obtain es cf ex co where v: "v = JObj
     [(''executiveSummary'', es),
      (''controlFailures'', JArr (map (\<lambda>(index, m). extractedControl index m) cf)),
      (''exclusions'', JArr (map (\<lambda>(index, m). extractedExclusion index m) ex)),
      (''carveOuts'', JArr (map (\<lambda>(index, m). extractedCarveOut index m) co))]"
    by blast
  show "truthy v" by (simp add: v)
  have af: "arrayField v ''controlFailures'' = map (\<lambda>(index, m). extractedControl index m) cf"
    "arrayField v ''exclusions'' = map (\<lambda>(index, m). extractedExclusion index m) ex"
    "arrayField v ''carveOuts'' = map (\<lambda>(index, m). extractedCarveOut index m) co"
    by (simp_all add: v arrayField_def)
  show "\<not> isl (transformSOC1Result P v)"
    unfolding transformSOC1Result_isl af
    by (auto simp: extractedControl_def extractedExclusion_def carveOutFinding_extracted)
qed


lemma fenceAt_no_brace: "CHR ''{'' \<notin> set s \<Longrightarrow> fenceAt s = None"
proof -
  assume nb: "CHR ''{'' \<notin> set s"
  have sub: "set (dropWhile isWhiteSpace t) \<subseteq> set s" if "set t \<subseteq> set s" for t
    using that set_dropWhileD by fastforce
  have a: "set (drop 3 s) \<subseteq> set s" and b: "set (drop 4 (drop 3 s)) \<subseteq> set s"
    by (auto dest: in_set_dropD)
  have "dropWhile isWhiteSpace t \<noteq> CHR ''{'' # rest" if "set t \<subseteq> set s" for t rest
  proof
    assume "dropWhile isWhiteSpace t = CHR ''{'' # rest"
    then have "CHR ''{'' \<in> set (dropWhile isWhiteSpace t)" by simp
    with sub [OF that] nb show False by blast
  qed
  with a b show ?thesis
    by (auto simp: fenceAt_def Let_def split: list.splits)
qed

lemma fencedBlock_no_brace: "CHR ''{'' \<notin> set s \<Longrightarrow> fencedBlock s = None"
  by (induction s) (simp_all add: fenceAt_no_brace)

lemma jsonStrategies_no_brace:
  assumes "CHR ''{'' \<notin> set content"
  shows "jsonStrategies P useLocalModel content = JSON_parse P content"
proof -
  have d: "dropWhile (\<lambda>c. c \<noteq> CHR ''{'') content = []"
    using assms by (auto simp: dropWhile_eq_Nil_conv)
  have s1: "strategy1 P content = None"
    by (simp add: strategy1_def braceSpan_def d)
  have s2: "strategy2 P content None = JSON_parse P content"
    by (simp add: strategy2_def tryParse_def truthyOpt_def split: option.splits)
  have s3: "strategy3 P content r = r" for r
    by (simp add: strategy3_def fencedBlock_no_brace [OF assms])
  have s4: "strategy4 P content r = r" for r
    by (simp add: strategy4_def stripBeforeBrace_def stripAfterBrace_def d trim_def
        startsWith_def)
  have s5: "strategy5 P useLocalModel content r = r" for r
    by (simp add: strategy5_def aggressiveClean_def stripBeforeBrace_def stripAfterBrace_def d
        trim_def startsWith_def)
  show ?thesis
    by (simp add: jsonStrategies_def s1 s2 s3 s4 s5)
qed

lemma extract_empty: "extractFromNaturalLanguage [] = None"
  by (simp add: extractFromNaturalLanguage_def opinionOf_def orNotSpecified_def)

lemma parseStage_unparsed:
  assumes "\<not> truthyOpt (jsonStrategies P useLocalModel content)"
  shows "\<exists>r. parseStage P useLocalModel content = Inr r"
proof (cases "extractFromNaturalLanguage content")
  case None
  with assms transform_fallback [of P content] show ?thesis
    by (auto simp: parseStage_def transformOrThrow_Inr)
next
  case (Some v)
  from transform_extracted(1) [OF Some, of P] obtain r where "transformSOC1Result P v = Inr r"
    by (cases "transformSOC1Result P v") auto
  with assms Some show ?thesis
    by (simp add: parseStage_def transformOrThrow_Inr)
qed

text \<open>
  What the parsing stage does on every text. When every JSON strategy leaves no truthy
  result and the extraction from natural language finds nothing, the stage returns the
  transform of the stub built by \<open>createFallbackResult\<close>: its three category findings
  carry the confidence 0.1 and the exclusion finding embeds the preview of the raw text,
  cut to 1000 characters (the fourth finding is the executive summary). Whenever the
  strategies leave no truthy result the stage returns a record; this is so for every text
  without an opening brace that \<open>JSON.parse\<close> rejects, the empty string among them. The
  stage throws only when a strategy produced a truthy value on which
  \<open>transformSOC1Result\<close> throws.
\<close>

theorem parseStage_outcome:
  "(\<not> truthyOpt (jsonStrategies P useLocalModel content) \<and>
      extractFromNaturalLanguage content = None \<longrightarrow>
      (\<exists>r c x v s. parseStage P useLocalModel content = Inr r \<and>
         rawResult r = createFallbackResult content \<and> findings r = [c, x, v, s] \<and>
         f_confidence c = JNum (1 / 10) \<and> f_confidence x = JNum (1 / 10) \<and>
         f_confidence v = JNum (1 / 10) \<and>
         f_description x = JStr
           (''AI response parsing failed. Raw content preview: '' @ truncatedContent content))) \<and>
   (\<not> truthyOpt (jsonStrategies P useLocalModel content) \<longrightarrow>
      (\<exists>r. parseStage P useLocalModel content = Inr r)) \<and>
   (\<forall>e. parseStage P useLocalModel content = Inl e \<longrightarrow>
      e = ResponseNotParsed \<and> truthyOpt (jsonStrategies P useLocalModel content) \<and>
      isl (transformSOC1Result P (the (jsonStrategies P useLocalModel content)))) \<and>
   (CHR ''{'' \<notin> set content \<and> JSON_parse P content = None \<longrightarrow>
      \<not> truthyOpt (jsonStrategies P useLocalModel content)) \<and>
   extractFromNaturalLanguage [] = None"
proof (intro conjI impI allI)
  assume "\<not> truthyOpt (jsonStrategies P useLocalModel content) \<and>
      extractFromNaturalLanguage content = None"
  with transform_fallback [of P content]
  show "\<exists>r c x v s. parseStage P useLocalModel content = Inr r \<and>
         rawResult r = createFallbackResult content \<and> findings r = [c, x, v, s] \<and>
         f_confidence c = JNum (1 / 10) \<and> f_confidence x = JNum (1 / 10) \<and>
         f_confidence v = JNum (1 / 10) \<and>
         f_description x = JStr
           (''AI response parsing failed. Raw content preview: '' @ truncatedContent content)"
    by (simp add: parseStage_def transformOrThrow_Inr)
next
  assume "\<not> truthyOpt (jsonStrategies P useLocalModel content)"
  then show "\<exists>r. parseStage P useLocalModel content = Inr r"
    by (rule parseStage_unparsed)
next
  fix e
  assume e: "parseStage P useLocalModel content = Inl e"
  have t: "truthyOpt (jsonStrategies P useLocalModel content)"
  proof (rule ccontr)
    assume "\<not> ?thesis"
    from parseStage_unparsed [OF this] e show False by simp
  qed
  with e have "transformOrThrow P (the (jsonStrategies P useLocalModel content)) = Inl e"
    by (simp add: parseStage_def)
  with t show "e = ResponseNotParsed" "truthyOpt (jsonStrategies P useLocalModel content)"
    "isl (transformSOC1Result P (the (jsonStrategies P useLocalModel content)))"
    by (simp_all add: transformOrThrow_Inl)
next
  assume "CHR ''{'' \<notin> set content \<and> JSON_parse P content = None"
  then show "\<not> truthyOpt (jsonStrategies P useLocalModel content)"
    by (simp add: jsonStrategies_no_brace truthyOpt_def)
next
  show "extractFromNaturalLanguage [] = None"
    by (rule extract_empty)
qed

theorem parseStage_outcome_witness:
  "CHR ''{'' \<notin> set [] \<and> JSON_parse refPlatform [] = None \<and>
   \<not> truthyOpt (jsonStrategies refPlatform False []) \<and>
   extractFromNaturalLanguage [] = None \<and>
   (\<exists>r. parseStage refPlatform False [] = Inr r \<and> rawResult r = createFallbackResult [] \<and>
      map f_confidence (take 3 (findings r)) = [JNum (1 / 10), JNum (1 / 10), JNum (1 / 10)]) \<and>
   parseStage refPlatform False nullElementResponse = Inl ResponseNotParsed \<and>
   truthyOpt (jsonStrategies refPlatform False nullElementResponse) \<and>
   isl (transformSOC1Result refPlatform (the (jsonStrategies refPlatform False nullElementResponse)))"
proof -
  note a = parseStage_outcome [of refPlatform False "[]"]
  note b = parseStage_outcome [of refPlatform False nullElementResponse]
  have p: "JSON_parse refPlatform [] = None"
    by code_simp
  have t: "parseStage refPlatform False nullElementResponse = Inl ResponseNotParsed"
    by code_simp
  from a p have n: "\<not> truthyOpt (jsonStrategies refPlatform False [])"
    and x: "extractFromNaturalLanguage [] = None"
    by simp_all
  with a obtain r c x v s where "parseStage refPlatform False [] = Inr r"
    "rawResult r = createFallbackResult []" "findings r = [c, x, v, s]"
    "f_confidence c = JNum (1 / 10)" "f_confidence x = JNum (1 / 10)"
    "f_confidence v = JNum (1 / 10)"
    by blast
  then have "\<exists>r. parseStage refPlatform False [] = Inr r \<and> rawResult r = createFallbackResult [] \<and>
      map f_confidence (take 3 (findings r)) = [JNum (1 / 10), JNum (1 / 10), JNum (1 / 10)]"
    by simp
  with p n x t b show ?thesis
    by simp
qed

text \<open>
  C1, where the code departs from it. The claim is that the parsing stage returns a record
  for every normalized text and never throws. The response \<open>{"controlFailures":[null]}\<close>
  is parsed by strategy 1, \<open>transformSOC1Result\<close> reads \<open>control.id\<close> of the \<open>null\<close>
  element, and the stage throws "AI response could not be parsed as valid JSON".
\<close>

theorem parseStage_null_element_throws:
  "parseStage refPlatform False nullElementResponse = Inl ResponseNotParsed"
  by code_simp

section \<open>Round trip through the parsing stage\<close>


lemma isObject_not_null: "isObject x \<Longrightarrow> x \<noteq> JNull"
  by (auto simp: isObject_def)

lemma carveOut_shaped:
  assumes "isObject x" "isStringOrAbsent (field x ''provider'')"
    "isStringOrAbsent (field x ''reason'')"
  shows "\<not> isl (carveOutFinding P 0 x)"
proof -
  have a: "\<exists>s. orElse (field x name) (JStr d) = JStr s" if "isStringOrAbsent (field x name)"
    for name d
    using that
    by (auto simp: isStringOrAbsent_def orElse_def split: option.splits json.splits)
  from a [OF assms(2)] obtain p
    where p: "orElse (field x ''provider'') (JStr ''Unknown Provider'') = JStr p"
    by blast
  from a [OF assms(3)] obtain q
    where q: "orElse (field x ''reason'') (JStr ''No reason provided'') = JStr q"
    by blast
  from isObject_not_null [OF assms(1)] show ?thesis
    by (simp add: carveOutFinding_def p q)
qed

lemma resultRecord_transform:
  assumes "resultRecord v"
  shows "\<not> isl (transformSOC1Result P v)" and "truthy v"
proof -
  from assms show "truthy v"
    by (cases v) (simp_all add: resultRecord_def isObject_def)
  from assms show "\<not> isl (transformSOC1Result P v)"
    unfolding transformSOC1Result_isl resultRecord_def list_all_iff
    using isObject_not_null carveOut_shaped by blast
qed

lemma dropWhile_append_all:
  "\<forall>x \<in> set xs. Q x \<Longrightarrow> dropWhile Q (xs @ ys) = dropWhile Q ys"
  by (induction xs) simp_all

lemma braceSpan_wrapped:
  assumes "startsWith s (CHR ''{'')" and "endsWith s (CHR ''}'')"
    and "CHR ''{'' \<notin> set pre" and "CHR ''}'' \<notin> set post"
  shows "braceSpan (pre @ s @ post) = Some s"
proof -
  from assms(1) obtain r where s: "s = CHR ''{'' # r"
    by (cases s) (simp_all add: startsWith_def)
  from assms(2) s obtain r' where r: "r = r' @ [CHR ''}'']"
    by (cases r rule: rev_cases) (simp_all add: endsWith_def startsWith_def)
  have "dropWhile (\<lambda>c. c \<noteq> CHR ''{'') (pre @ s @ post) = dropWhile (\<lambda>c. c \<noteq> CHR ''{'') (s @ post)"
    using assms(3) by (intro dropWhile_append_all) auto
  then have d: "dropWhile (\<lambda>c. c \<noteq> CHR ''{'') (pre @ s @ post) = CHR ''{'' # (r @ post)"
    by (simp add: s)
  have "dropWhile (\<lambda>c. c \<noteq> CHR ''}'') (rev post @ rev r) = dropWhile (\<lambda>c. c \<noteq> CHR ''}'') (rev r)"
    using assms(4) by (intro dropWhile_append_all) auto
  moreover have "dropWhile (\<lambda>c. c \<noteq> CHR ''}'') (rev r) = rev r"
    by (simp add: r)
  ultimately have "dropWhile (\<lambda>c. c \<noteq> CHR ''}'') (rev (r @ post)) = rev r"
    by simp
  then have e: "rev (dropWhile (\<lambda>c. c \<noteq> CHR ''}'') (rev (r @ post))) = r"
    by (simp only: rev_rev_ident)
  have m: "CHR ''}'' \<in> set (r @ post)"
    by (simp add: r)
  show ?thesis
    unfolding braceSpan_def d using m by (simp only: list.case e s if_True)
qed

lemma jsonStrategies_wrapped:
  assumes "JSON_parse P s = Some v" and "truthy v"
    and "startsWith s (CHR ''{'')" and "endsWith s (CHR ''}'')"
    and "CHR ''{'' \<notin> set pre" and "CHR ''}'' \<notin> set post"
  shows "jsonStrategies P useLocalModel (pre @ s @ post) = Some v"
proof -
  have "strategy1 P (pre @ s @ post) = Some v"
    using assms(1) braceSpan_wrapped [OF assms(3-6)]
    by (simp add: strategy1_def tryParse_def)
  with assms(2) show ?thesis
    by (simp add: jsonStrategies_def strategy2_def strategy3_def strategy4_def strategy5_def
        truthyOpt_def)
qed

text \<open>
  C9. Let \<open>s\<close> be the serialisation of a well-formed result object \<open>v\<close>: a text from an
  opening to a closing brace that \<open>JSON.parse\<close> reads back as \<open>v\<close>. The parsing stage
  applied to \<open>s\<close> returns the transform of \<open>v\<close>, whose raw result is \<open>v\<close> itself, and
  applied to \<open>s\<close> wrapped in prose (text without an opening brace before it and without
  a closing brace after it) it returns the same record.
\<close>

theorem parseStage_roundtrip:
  assumes "JSON_parse P s = Some v" and "resultRecord v"
    and "startsWith s (CHR ''{'')" and "endsWith s (CHR ''}'')"
    and "CHR ''{'' \<notin> set pre" and "CHR ''}'' \<notin> set post"
  shows "\<exists>r. parseStage P useLocalModel s = Inr r \<and>
             parseStage P useLocalModel (pre @ s @ post) = Inr r \<and>
             rawResult r = v \<and> transformSOC1Result P v = Inr r"
proof -
  note rr = resultRecord_transform(1) [OF assms(2), of P] resultRecord_transform(2) [OF assms(2)]
  from rr(1) obtain r where r: "transformSOC1Result P v = Inr r"
    by (cases "transformSOC1Result P v") auto
  have w: "jsonStrategies P useLocalModel (pre @ s @ post) = Some v"
    using assms(1) rr(2) assms(3-6) by (rule jsonStrategies_wrapped)
  have "jsonStrategies P useLocalModel ([] @ s @ []) = Some v"
    using assms(1) rr(2) assms(3,4) by (rule jsonStrategies_wrapped) simp_all
  then have p: "jsonStrategies P useLocalModel s = Some v"
    by simp
  have "parseStage P useLocalModel s = Inr r"
    using rr(2) r by (simp add: parseStage_def p truthyOpt_def transformOrThrow_def)
  moreover have "parseStage P useLocalModel (pre @ s @ post) = Inr r"
    using rr(2) r by (simp add: parseStage_def w truthyOpt_def transformOrThrow_def)
  moreover have "rawResult r = v"
    using r by (rule transformSOC1Result_rawResult)
  ultimately show ?thesis
    using r by blast
qed

theorem parseStage_roundtrip_witness:
  "JSON_parse refPlatform sampleText = Some sampleRecord \<and> resultRecord sampleRecord \<and>
   startsWith sampleText (CHR ''{'') \<and> endsWith sampleText (CHR ''}'') \<and>
   CHR ''{'' \<notin> set ''Here is the analysis: '' \<and> CHR ''}'' \<notin> set '' Let me know.'' \<and>
   (\<exists>r. parseStage refPlatform False sampleText = Inr r \<and>
        parseStage refPlatform False (''Here is the analysis: '' @ sampleText @ '' Let me know.'')
          = Inr r \<and>
        rawResult r = sampleRecord)"
proof -
  have a: "JSON_parse refPlatform sampleText = Some sampleRecord"
    by code_simp
  have b: "resultRecord sampleRecord"
    by code_simp
  have c: "startsWith sampleText (CHR ''{'')" "endsWith sampleText (CHR ''}'')"
    by code_simp+
  have d: "CHR ''{'' \<notin> set ''Here is the analysis: ''" "CHR ''}'' \<notin> set '' Let me know.''"
    by simp_all
  from parseStage_roundtrip [OF a b c d, of False] a b c d show ?thesis
    by blast
qed


section \<open>Properties of the multi-chunk analysis\<close>


lemma parseStage_successful:
  assumes "parseStage P useLocalModel content = Inr r"
  shows "successfulResult P r"
proof (cases "truthyOpt (jsonStrategies P useLocalModel content)")
  case True
  then obtain v where v: "jsonStrategies P useLocalModel content = Some v" and t: "truthy v"
    by (auto simp: truthyOpt_def split: option.splits)
  from assms True v have tr: "transformSOC1Result P v = Inr r"
    by (simp add: parseStage_def transformOrThrow_Inr)
  then have "rawResult r = v"
    by (rule transformSOC1Result_rawResult)
  with tr t show ?thesis
    by (simp add: successfulResult_def)
next
  case False
  show ?thesis
  proof (cases "extractFromNaturalLanguage content")
    case None
    with assms False have tr: "transformSOC1Result P (createFallbackResult content) = Inr r"
      by (simp add: parseStage_def transformOrThrow_Inr)
    then have "rawResult r = createFallbackResult content"
      by (rule transformSOC1Result_rawResult)
    moreover have "truthy (createFallbackResult content)"
      by (simp add: createFallbackResult_def)
    ultimately show ?thesis
      using tr by (simp add: successfulResult_def)
  next
    case (Some v)
    with assms False have tr: "transformSOC1Result P v = Inr r"
      by (simp add: parseStage_def transformOrThrow_Inr)
    then have "rawResult r = v"
      by (rule transformSOC1Result_rawResult)
    with tr transform_extracted(2) [OF Some] show ?thesis
      by (simp add: successfulResult_def)
  qed
qed

lemma analyzeSingleChunk_successful:
  "analyzeSingleChunk P useLocalModel respond chunk = Inr r \<Longrightarrow> successfulResult P r"
  by (auto simp: analyzeSingleChunk_def split: sum.splits if_splits
      dest: parseStage_successful)

lemma chunkResultsOf_set:
  "set (chunkResultsOf P useLocalModel respond chunks) =
     {r. \<exists>chunk \<in> set chunks. analyzeSingleChunk P useLocalModel respond chunk = Inr r}"
  by (auto simp: chunkResultsOf_def split: sum.splits)

lemma chunkResultsOf_empty:
  "chunkResultsOf P useLocalModel respond chunks = [] \<longleftrightarrow>
     (\<forall>chunk \<in> set chunks. isl (analyzeSingleChunk P useLocalModel respond chunk))"
proof -
  have "chunkResultsOf P useLocalModel respond chunks = [] \<longleftrightarrow>
      set (chunkResultsOf P useLocalModel respond chunks) = {}"
    by simp
  also have "\<dots> \<longleftrightarrow> (\<forall>chunk \<in> set chunks. isl (analyzeSingleChunk P useLocalModel respond chunk))"
    unfolding chunkResultsOf_set
    by (auto simp: isl_def) (metis sum.exhaust_sel)
  finally show ?thesis .
qed

text \<open>
  C3. Merging zero chunk results raises the error "No valid results from any document
  sections". In the multi-chunk analysis a chunk whose analysis throws is skipped; the
  analysis fails if and only if no chunk succeeds, and then with exactly that error: it
  has no other fatal error.
\<close>

theorem analyzeMultipleChunks_outcome:
  "combineChunkResults P [] = Inl NoValidResults \<and>
   ((\<forall>chunk \<in> set (splitTextIntoChunks pdfText 25000).
        isl (analyzeSingleChunk P useLocalModel respond chunk)) \<longrightarrow>
      analyzeMultipleChunks P useLocalModel respond pdfText = Inl NoValidResults) \<and>
   ((\<exists>chunk \<in> set (splitTextIntoChunks pdfText 25000).
        \<not> isl (analyzeSingleChunk P useLocalModel respond chunk)) \<longrightarrow>
      (\<exists>r. analyzeMultipleChunks P useLocalModel respond pdfText = Inr r)) \<and>
   (\<forall>e. analyzeMultipleChunks P useLocalModel respond pdfText = Inl e \<longrightarrow> e = NoValidResults)"
proof -
  let ?chunks = "splitTextIntoChunks pdfText 25000"
  let ?rs = "chunkResultsOf P useLocalModel respond ?chunks"
  have none: "combineChunkResults P [] = Inl NoValidResults"
    by (simp add: combineChunkResults_def)
  have ok: "\<forall>r \<in> set ?rs. successfulResult P r"
    unfolding chunkResultsOf_set using analyzeSingleChunk_successful by blast
  have some: "\<exists>out. combineChunkResults P ?rs = Inr out" if "?rs \<noteq> []"
    using combineChunkResults_raw [OF that ok] by blast
  have a: "analyzeMultipleChunks P useLocalModel respond pdfText = Inl NoValidResults"
    if "\<forall>chunk \<in> set ?chunks. isl (analyzeSingleChunk P useLocalModel respond chunk)"
    using that none by (simp add: analyzeMultipleChunks_def chunkResultsOf_empty [symmetric])
  have b: "\<exists>r. analyzeMultipleChunks P useLocalModel respond pdfText = Inr r"
    if "\<exists>chunk \<in> set ?chunks. \<not> isl (analyzeSingleChunk P useLocalModel respond chunk)"
  proof -
    from that have "?rs \<noteq> []"
      using chunkResultsOf_empty [of P useLocalModel respond ?chunks] by blast
    from some [OF this] show ?thesis
      by (simp add: analyzeMultipleChunks_def)
  qed
  have c: "e = NoValidResults"
    if "analyzeMultipleChunks P useLocalModel respond pdfText = Inl e" for e
  proof (cases "\<forall>chunk \<in> set ?chunks. isl (analyzeSingleChunk P useLocalModel respond chunk)")
    case True
    from a [OF True] that show ?thesis by simp
  next
    case False
    then have "\<exists>chunk \<in> set ?chunks. \<not> isl (analyzeSingleChunk P useLocalModel respond chunk)"
      by blast
    from b [OF this] that show ?thesis by simp
  qed
  from none a b c show ?thesis by blast
qed

theorem analyzeMultipleChunks_outcome_witness:
  "splitTextIntoChunks ''Section one.'' 25000 = [''Section one.''] \<and>
   isl (analyzeSingleChunk refPlatform False respondDown ''Section one.'') \<and>
   analyzeMultipleChunks refPlatform False respondDown ''Section one.'' = Inl NoValidResults \<and>
   \<not> isl (analyzeSingleChunk refPlatform False respondSample ''Section one.'') \<and>
   (\<exists>r. analyzeMultipleChunks refPlatform False respondSample ''Section one.'' = Inr r)"
proof -
  note a = analyzeMultipleChunks_outcome [of refPlatform "''Section one.''" False respondDown]
  note b = analyzeMultipleChunks_outcome [of refPlatform "''Section one.''" False respondSample]
  have c: "splitTextIntoChunks ''Section one.'' 25000 = [''Section one.'']"
    by (simp add: splitTextIntoChunks_def blankLineMatch_def accumulate_def accumulateStep_def
        trim_def isWhiteSpace_def)
  have d: "isl (analyzeSingleChunk refPlatform False respondDown ''Section one.'')"
    by (simp add: analyzeSingleChunk_def respondDown_def)
  have e: "\<not> isl (analyzeSingleChunk refPlatform False respondSample ''Section one.'')"
    by code_simp
  from a b c d e show ?thesis
    by simp
qed

section \<open>The safe dump of the response envelope\<close>


text \<open>
  C7, where the code departs from it. The message of \<open>toolCallEnvelope\<close> has no string
  content, so \<open>normalizeContent\<close> returns the safe dump of the message. The dump keeps the
  first tool call, replaces the identifier of the second by the depth marker and replaces
  the third tool call altogether, although the three are siblings at nesting depth 2: the
  counter of the replacer counts the objects entered so far, not the nesting depth.
\<close>

theorem normalizeContent_counts_objects:
  "normalizeContent P toolCallEnvelope = JSON_stringify P (JObj
     [(''role'', JStr ''assistant''),
      (''tool_calls'', JArr
         [JObj [(''id'', JStr ''1'')],
          JObj [(''id'', JStr ''[Max Depth Reached]'')],
          JStr ''[Max Depth Reached]''])])"
  by (simp add: toolCallEnvelope_def normalizeContent_def firstChoice_def orEmptyObject_def
      stringContent_def hasKeys_def safeStringify_def maxDepth_def replaceString_def)


section \<open>Properties of the chunk splitting\<close>


subsection \<open>Matches\<close>




subsection \<open>Splitting keeps everything but the separators\<close>
















subsection \<open>Text within the budget\<close>










subsection \<open>The length of a chunk\<close>




subsection \<open>Text without any boundary\<close>









end
